theory Spec2Isabelle
  imports Main "HOL-Library.AList"
begin

section \<open>JavaScript values and the object store\<close>

text \<open>
  The query builder mutates objects that are shared by reference, so objects live in a
  store and values refer to them by address. Primitive values are compared by value,
  references by address (JavaScript's \<open>===\<close>). Numbers are the integers and \<open>NaN\<close>.
  A function is a value identified by its name; it is an object without enumerable
  properties.
\<close>

type_synonym addr = nat

datatype jsval =
    JUndefined
  | JNull
  | JBool bool
  | JNum int
  | JNaN
  | JStr string
  | JFun string
  | JRef addr

type_synonym props = "(string \<times> jsval) list"

text \<open>
  The state of a \<open>Query\<close> (src/query.js, the constructor): the fields \<open>_where\<close> to
  \<open>_from\<close>, the non-enumerable \<open>driver\<close>, and \<open>model\<close>, a property that does not exist
  until \<open>setModel\<close> creates it.
\<close>

record query =
  q_where :: jsval
  q_rels :: jsval
  q_select :: jsval
  q_order :: jsval
  q_distinct :: jsval
  q_offset :: jsval
  q_limit :: jsval
  q_from :: jsval
  q_driver :: jsval
  q_model :: "jsval option"

text \<open>
  A model instance (the file of \<open>Model\<close>): \<open>m_driver\<close> is the class-level
  \<open>constructor.driver\<close>, \<open>m_pk\<close> the option \<open>pk\<close>, \<open>m_data\<close> the attribute container
  read by \<open>get\<close>, \<open>m_related\<close> the related models by relation name, and \<open>m_proto\<close> the
  enumerable properties the instance inherits from its prototype chain.
\<close>

record model =
  m_driver :: jsval
  m_pk :: string
  m_data :: props
  m_related :: props
  m_proto :: props

datatype jsobj =
    Arr "jsval list"
  | Obj props
  | QueryObj query
  | ModelObj model

type_synonym heap = "jsobj list"

definition alloc :: "jsobj \<Rightarrow> heap \<Rightarrow> jsval \<times> heap" where
  "alloc ob h = (JRef (length h), h @ [ob])"

definition lookup :: "heap \<Rightarrow> addr \<Rightarrow> jsobj option" where
  "lookup h a = (if a < length h then Some (h ! a) else None)"

definition deref :: "heap \<Rightarrow> jsval \<Rightarrow> jsobj option" where
  "deref h v = (case v of JRef a \<Rightarrow> lookup h a | _ \<Rightarrow> None)"

definition arg :: "jsval list \<Rightarrow> nat \<Rightarrow> jsval" where
  "arg args i = (if i < length args then args ! i else JUndefined)"

subsection \<open>Property names and enumeration\<close>

function show_nat :: "nat \<Rightarrow> string" where
  "show_nat n =
     (if n < 10 then [''0123456789'' ! n]
      else show_nat (n div 10) @ [''0123456789'' ! (n mod 10)])"
  by pat_completeness auto
termination
  by (relation "measure id") auto

declare show_nat.simps [simp del]

text \<open>
  The string under which \<open>o[key] = val\<close> stores a property. An object used as a key is
  turned into a string by its own \<open>toString\<close>; the text of a plain object is used.
\<close>

definition toPropertyKey :: "jsval \<Rightarrow> string" where
  "toPropertyKey k =
     (case k of
        JStr s \<Rightarrow> s
      | JUndefined \<Rightarrow> ''undefined''
      | JNull \<Rightarrow> ''null''
      | JBool b \<Rightarrow> (if b then ''true'' else ''false'')
      | JNum i \<Rightarrow> (if i < 0 then ''-'' @ show_nat (nat (- i)) else show_nat (nat i))
      | JNaN \<Rightarrow> ''NaN''
      | JFun f \<Rightarrow> f
      | JRef a \<Rightarrow> ''[object Object]'')"

text \<open>The methods on \<open>Query.prototype\<close>, in the order query.js assigns them.\<close>

definition Query_prototype :: props where
  "Query_prototype =
     map (\<lambda>n. (n, JFun (''Query.prototype.'' @ n)))
       [''with'', ''loadRelated'', ''setModel'', ''where'', ''whereIn'', ''orWhere'',
        ''from'', ''select'', ''distinct'', ''take'', ''skip'', ''order'', ''fetch'',
        ''fetchAll'', ''insert'', ''update'', ''destroy'', ''assemble'', ''_getRelation'',
        ''_initRelation'']"

text \<open>Own enumerable properties (\<open>_.keys\<close>) and inherited ones (\<open>for ... in\<close>).\<close>

definition ownProps :: "jsobj \<Rightarrow> props" where
  "ownProps ob =
     (case ob of
        Arr xs \<Rightarrow> zip (map show_nat [0..<length xs]) xs
      | Obj ps \<Rightarrow> ps
      | QueryObj q \<Rightarrow>
          [(''_where'', q_where q), (''_rels'', q_rels q), (''_select'', q_select q),
           (''_order'', q_order q), (''_distinct'', q_distinct q),
           (''_offset'', q_offset q), (''_limit'', q_limit q), (''_from'', q_from q)]
          @ (case q_model q of None \<Rightarrow> [] | Some m \<Rightarrow> [(''model'', m)])
      | ModelObj m \<Rightarrow> [])"

definition allProps :: "jsobj \<Rightarrow> props" where
  "allProps ob =
     ownProps ob @
     (case ob of QueryObj q \<Rightarrow> Query_prototype | ModelObj m \<Rightarrow> m_proto m | _ \<Rightarrow> [])"

definition allPropsOf :: "heap \<Rightarrow> jsval \<Rightarrow> props" where
  "allPropsOf h v = (case deref h v of Some ob \<Rightarrow> allProps ob | None \<Rightarrow> [])"

subsection \<open>The underscore helpers the builder calls\<close>

definition isArray :: "heap \<Rightarrow> jsval \<Rightarrow> bool" where
  "isArray h v = (case deref h v of Some (Arr xs) \<Rightarrow> True | _ \<Rightarrow> False)"

definition isObject :: "jsval \<Rightarrow> bool" where
  "isObject v = (case v of JRef a \<Rightarrow> True | JFun f \<Rightarrow> True | _ \<Rightarrow> False)"

definition isFunction :: "jsval \<Rightarrow> bool" where
  "isFunction v = (case v of JFun f \<Rightarrow> True | _ \<Rightarrow> False)"

definition instanceofQuery :: "heap \<Rightarrow> jsval \<Rightarrow> bool" where
  "instanceofQuery h v = (case deref h v of Some (QueryObj q) \<Rightarrow> True | _ \<Rightarrow> False)"

definition instanceofModel :: "heap \<Rightarrow> jsval \<Rightarrow> bool" where
  "instanceofModel h v = (case deref h v of Some (ModelObj m) \<Rightarrow> True | _ \<Rightarrow> False)"

text \<open>
  \<open>_.isEmpty\<close>: \<open>null\<close> and \<open>undefined\<close> are empty, a string or an array is empty when
  its length is 0, and anything else is empty when \<open>_.keys\<close> of it is empty. \<open>_.keys\<close>
  of a value that is not an object is the empty list, so every number and every boolean
  is empty.
\<close>

definition isEmpty :: "heap \<Rightarrow> jsval \<Rightarrow> bool" where
  "isEmpty h v =
     (case v of
        JUndefined \<Rightarrow> True
      | JNull \<Rightarrow> True
      | JStr s \<Rightarrow> s = []
      | JRef a \<Rightarrow>
          (case lookup h a of
             Some (Arr xs) \<Rightarrow> xs = []
           | Some ob \<Rightarrow> ownProps ob = []
           | None \<Rightarrow> True)
      | _ \<Rightarrow> True)"

text \<open>
  \<open>obj[key] = val\<close> on a property list: an existing key keeps its place, a new one
  goes to the end. (An engine lists integer-like names first; nothing here depends on
  the order of enumeration.)
\<close>

definition assign :: "props \<Rightarrow> props \<Rightarrow> props" where
  "assign dest src = fold (\<lambda>(k, v) acc. AList.update k v acc) src dest"

text \<open>
  \<open>_.extend(dest, src)\<close> copies every enumerable property of \<open>src\<close>, inherited ones
  included, onto \<open>dest\<close>. Every destination in this program is a plain object.
\<close>

definition extend_js :: "jsval \<Rightarrow> jsval \<Rightarrow> heap \<Rightarrow> heap" where
  "extend_js dest src h =
     (case dest of
        JRef a \<Rightarrow>
          (case lookup h a of
             Some (Obj ps) \<Rightarrow> h[a := Obj (assign ps (allPropsOf h src))]
           | _ \<Rightarrow> h)
      | _ \<Rightarrow> h)"

definition slice :: "jsval \<Rightarrow> heap \<Rightarrow> jsval \<times> heap" where
  "slice v h = (case deref h v of Some (Arr xs) \<Rightarrow> alloc (Arr xs) h | _ \<Rightarrow> (v, h))"

definition clone :: "jsval \<Rightarrow> heap \<Rightarrow> jsval \<times> heap" where
  "clone v h =
     (if \<not> isObject v then (v, h)
      else if isArray h v then slice v h
      else (let (c, h1) = alloc (Obj []) h in (c, extend_js c v h1)))"

text \<open>\<open>_.uniq\<close>: a value is pushed onto the result unless the result contains it.\<close>

fun uniq_into :: "'a list \<Rightarrow> 'a list \<Rightarrow> 'a list" where
  "uniq_into result [] = result"
| "uniq_into result (x # xs) =
     uniq_into (if x \<in> set result then result else result @ [x]) xs"

definition uniq :: "'a list \<Rightarrow> 'a list" where
  "uniq xs = uniq_into [] xs"

section \<open>The query builder (src/query.js)\<close>

definition Query_new :: "jsval list \<Rightarrow> heap \<Rightarrow> jsval \<times> heap" where
  "Query_new args h0 =
     (let (w, h1) = alloc (Obj []) h0;
          (r, h2) = alloc (Obj []) h1;
          (s, h3) = alloc (Arr []) h2;
          (ord, h4) = alloc (Arr []) h3
      in alloc (QueryObj \<lparr> q_where = w, q_rels = r, q_select = s, q_order = ord,
                 q_distinct = JBool False, q_offset = JUndefined, q_limit = JUndefined,
                 q_from = JUndefined, q_driver = arg args 0, q_model = None \<rparr>) h4)"

definition getQuery :: "heap \<Rightarrow> addr \<Rightarrow> query option" where
  "getQuery h this = (case lookup h this of Some (QueryObj q) \<Rightarrow> Some q | _ \<Rightarrow> None)"

text \<open>\<open>this[name]\<close> for the names \<open>assemble\<close> reads.\<close>

definition query_prop :: "query \<Rightarrow> string \<Rightarrow> jsval" where
  "query_prop q name =
     (if name = ''_select'' then q_select q
      else if name = ''_distinct'' then q_distinct q
      else if name = ''_from'' then q_from q
      else if name = ''_where'' then q_where q
      else if name = ''_order'' then q_order q
      else if name = ''_offset'' then q_offset q
      else if name = ''_limit'' then q_limit q
      else JUndefined)"

definition setProp :: "jsval \<Rightarrow> string \<Rightarrow> jsval \<Rightarrow> heap \<Rightarrow> heap" where
  "setProp ob k v h =
     (case ob of
        JRef a \<Rightarrow>
          (case lookup h a of
             Some (Obj ps) \<Rightarrow> h[a := Obj (AList.update k v ps)]
           | _ \<Rightarrow> h)
      | _ \<Rightarrow> h)"

text \<open>The callback of the \<open>_.each\<close> in \<open>assemble\<close>, for one name of \<open>props\<close>.\<close>

definition assemblePieces :: "addr \<Rightarrow> jsval \<Rightarrow> string \<Rightarrow> heap \<Rightarrow> heap" where
  "assemblePieces this q name h =
     (case getQuery h this of
        None \<Rightarrow> h
      | Some t \<Rightarrow>
          (let prop = query_prop t (''_'' @ name) in
           if isEmpty h prop then h
           else
             (let (prop1, h1) = (if isArray h prop then slice prop h else (prop, h));
                  (prop2, h2) = (if isObject prop1 then clone prop1 h1 else (prop1, h1))
              in setProp q name prop2 h2)))"

definition assemble_props :: "string list" where
  "assemble_props =
     [''select'', ''distinct'', ''from'', ''where'', ''order'', ''offset'', ''limit'']"

definition Query_assemble :: "addr \<Rightarrow> heap \<Rightarrow> jsval \<times> heap" where
  "Query_assemble this h0 =
     (let (q, h1) = alloc (Obj []) h0
      in (q, fold (assemblePieces this q) assemble_props h1))"

text \<open>The helper \<open>_object(key, val)\<close> at the end of query.js.\<close>

definition object_of :: "jsval \<Rightarrow> jsval \<Rightarrow> heap \<Rightarrow> jsval \<times> heap" where
  "object_of key val h =
     (if isObject val then (val, h)
      else alloc (Obj [(toPropertyKey key, val)]) h)"

text \<open>
  \<open>where(key, op, val)\<close>, called with the argument list \<open>args\<close>. The \<open>switch\<close> on
  \<open>arguments.length\<close> has no \<open>break\<close>: the body of \<open>case 2\<close> runs into that of
  \<open>case 3\<close>, which runs into that of \<open>case 1\<close>. Each body is a function of its own;
  \<open>where_case2\<close> returns the new \<open>(op, val)\<close>, the other two the new \<open>cond\<close>.
\<close>

definition where_case2 :: "heap \<Rightarrow> jsval \<Rightarrow> jsval \<times> jsval" where
  "where_case2 h op = (if isArray h op then JStr ''$in'' else JStr ''$eq'', op)"

definition where_case3 :: "jsval \<Rightarrow> jsval \<Rightarrow> jsval \<Rightarrow> heap \<Rightarrow> jsval \<times> heap" where
  "where_case3 key op val h =
     (let (val1, ha) =
            (case val of
               JRef v \<Rightarrow> (if instanceofQuery h val then Query_assemble v h else (val, h))
             | _ \<Rightarrow> (val, h));
          (inner, hb) = object_of op val1 ha
      in object_of key inner hb)"

definition where_case1 :: "jsval \<Rightarrow> heap \<Rightarrow> jsval \<times> heap" where
  "where_case1 key h = (if isObject key then (key, h) else alloc (Obj []) h)"

definition Query_where :: "jsval list \<Rightarrow> addr \<Rightarrow> heap \<Rightarrow> heap" where
  "Query_where args this h0 =
     (let n = length args;
          key = arg args 0;
          (cond0, h1) = alloc (Obj []) h0;
          (op, val) = (if n = 2 then where_case2 h1 (arg args 1) else (arg args 1, arg args 2));
          (cond3, h3) = (if n = 2 \<or> n = 3 then where_case3 key op val h1 else (cond0, h1));
          (cond, h4) = (if n = 2 \<or> n = 3 \<or> n = 1 then where_case1 key h3 else (cond3, h3))
      in case getQuery h4 this of
           Some t \<Rightarrow> extend_js (q_where t) cond h4
         | None \<Rightarrow> h4)"

definition Query_whereIn :: "jsval \<Rightarrow> jsval \<Rightarrow> addr \<Rightarrow> heap \<Rightarrow> heap" where
  "Query_whereIn key val this h = Query_where [key, JStr ''$in'', val] this h"

definition Query_orWhere :: "jsval list \<Rightarrow> addr \<Rightarrow> heap \<Rightarrow> heap" where
  "Query_orWhere args this h0 =
     (let (clauses, h1) = alloc (Arr args) h0;
          (c, h2) = alloc (Obj [(''$or'', clauses)]) h1
      in Query_where [c] this h2)"

definition updQuery :: "addr \<Rightarrow> (query \<Rightarrow> query) \<Rightarrow> heap \<Rightarrow> heap" where
  "updQuery this f h =
     (case getQuery h this of Some t \<Rightarrow> h[this := QueryObj (f t)] | None \<Rightarrow> h)"

definition Query_setModel :: "jsval \<Rightarrow> addr \<Rightarrow> heap \<Rightarrow> heap" where
  "Query_setModel m this h = updQuery this (\<lambda>t. t\<lparr>q_model := Some m\<rparr>) h"

definition Query_from :: "jsval \<Rightarrow> addr \<Rightarrow> heap \<Rightarrow> heap" where
  "Query_from from this h = updQuery this (\<lambda>t. t\<lparr>q_from := from\<rparr>) h"

definition elems :: "heap \<Rightarrow> jsval \<Rightarrow> jsval list" where
  "elems h v = (case deref h v of Some (Arr xs) \<Rightarrow> xs | _ \<Rightarrow> [])"

text \<open>
  \<open>var args = _.isArray(field) ? field : _.toArray(arguments)\<close>, the first line of
  \<open>select\<close> and of \<open>order\<close>.
\<close>

definition fields_of :: "jsval list \<Rightarrow> heap \<Rightarrow> jsval \<times> heap" where
  "fields_of args h =
     (if isArray h (arg args 0) then (arg args 0, h) else alloc (Arr args) h)"

text \<open>\<open>_.uniq(xs.concat(args))\<close>: \<open>concat\<close> and \<open>_.uniq\<close> each build a new array.\<close>

definition uniq_concat :: "jsval \<Rightarrow> jsval \<Rightarrow> heap \<Rightarrow> jsval \<times> heap" where
  "uniq_concat xs args h =
     (let (c, h1) = alloc (Arr (elems h xs @ elems h args)) h
      in alloc (Arr (uniq (elems h1 c))) h1)"

definition Query_select :: "jsval list \<Rightarrow> addr \<Rightarrow> heap \<Rightarrow> heap" where
  "Query_select args this h0 =
     (case getQuery h0 this of
        None \<Rightarrow> h0
      | Some t \<Rightarrow>
          (let (fs, h1) = fields_of args h0;
               (u, h2) = uniq_concat (q_select t) fs h1
           in updQuery this (\<lambda>t. t\<lparr>q_select := u\<rparr>) h2))"

definition Query_distinct :: "addr \<Rightarrow> heap \<Rightarrow> heap" where
  "Query_distinct this h = updQuery this (\<lambda>t. t\<lparr>q_distinct := JBool True\<rparr>) h"

text \<open>
  \<open>Number(n)\<close>. Turning a string or an object into a number is left to \<open>conv\<close>, the
  conversion of the JavaScript engine.
\<close>

definition Number_of :: "(jsval \<Rightarrow> jsval) \<Rightarrow> jsval \<Rightarrow> jsval" where
  "Number_of conv n =
     (case n of
        JNum i \<Rightarrow> JNum i
      | JNaN \<Rightarrow> JNaN
      | JUndefined \<Rightarrow> JNaN
      | JNull \<Rightarrow> JNum 0
      | JBool b \<Rightarrow> JNum (if b then 1 else 0)
      | _ \<Rightarrow> conv n)"

definition Query_take :: "(jsval \<Rightarrow> jsval) \<Rightarrow> jsval \<Rightarrow> addr \<Rightarrow> heap \<Rightarrow> heap" where
  "Query_take conv n this h = updQuery this (\<lambda>t. t\<lparr>q_limit := Number_of conv n\<rparr>) h"

definition Query_skip :: "(jsval \<Rightarrow> jsval) \<Rightarrow> jsval \<Rightarrow> addr \<Rightarrow> heap \<Rightarrow> heap" where
  "Query_skip conv n this h = updQuery this (\<lambda>t. t\<lparr>q_offset := Number_of conv n\<rparr>) h"

definition Query_order :: "jsval list \<Rightarrow> addr \<Rightarrow> heap \<Rightarrow> heap" where
  "Query_order args this h0 =
     (case getQuery h0 this of
        None \<Rightarrow> h0
      | Some t \<Rightarrow>
          (let (fs, h1) = fields_of args h0;
               (u, h2) = uniq_concat (q_order t) fs h1
           in updQuery this (\<lambda>t. t\<lparr>q_order := u\<rparr>) h2))"

subsection \<open>Reading the state of a builder\<close>

text \<open>The builder's accumulated condition tree: the properties of \<open>this._where\<close>.\<close>

definition whereTree :: "heap \<Rightarrow> addr \<Rightarrow> props option" where
  "whereTree h this =
     (case getQuery h this of
        None \<Rightarrow> None
      | Some t \<Rightarrow> (case deref h (q_where t) of Some (Obj ps) \<Rightarrow> Some ps | _ \<Rightarrow> None))"

text \<open>The properties of the plain object a value refers to.\<close>

definition propsOf :: "heap \<Rightarrow> jsval \<Rightarrow> props option" where
  "propsOf h v = (case deref h v of Some (Obj ps) \<Rightarrow> Some ps | _ \<Rightarrow> None)"

text \<open>
  The fields a call of \<open>select\<close> or \<open>order\<close> is given, in the words of the spec
  ("each accepts either a sequence or variadic arguments"): the elements of the
  sequence when the first argument is one, the arguments themselves otherwise. It is
  written from the spec, not from \<open>fields_of\<close>, and the two are compared below.
\<close>

definition spec_fields_given :: "heap \<Rightarrow> jsval list \<Rightarrow> jsval list" where
  "spec_fields_given h args =
     (if isArray h (arg args 0) then elems h (arg args 0) else args)"

text \<open>The fields a builder holds.\<close>

definition selectFields :: "heap \<Rightarrow> addr \<Rightarrow> jsval list" where
  "selectFields h this = (case getQuery h this of Some t \<Rightarrow> elems h (q_select t) | None \<Rightarrow> [])"

definition orderFields :: "heap \<Rightarrow> addr \<Rightarrow> jsval list" where
  "orderFields h this = (case getQuery h this of Some t \<Rightarrow> elems h (q_order t) | None \<Rightarrow> [])"

subsection \<open>Sequences of constraint calls\<close>

text \<open>
  The constraint calls of the builder as data, so that a sequence of calls can be run.
\<close>

datatype call =
    Where "jsval list"
  | WhereIn jsval jsval
  | OrWhere "jsval list"
  | Select "jsval list"
  | Order "jsval list"
  | From jsval
  | Take jsval
  | Skip jsval
  | Distinct

fun apply_call :: "(jsval \<Rightarrow> jsval) \<Rightarrow> addr \<Rightarrow> call \<Rightarrow> heap \<Rightarrow> heap" where
  "apply_call conv this (Where args) h = Query_where args this h"
| "apply_call conv this (WhereIn key val) h = Query_whereIn key val this h"
| "apply_call conv this (OrWhere args) h = Query_orWhere args this h"
| "apply_call conv this (Select args) h = Query_select args this h"
| "apply_call conv this (Order args) h = Query_order args this h"
| "apply_call conv this (From v) h = Query_from v this h"
| "apply_call conv this (Take n) h = Query_take conv n this h"
| "apply_call conv this (Skip n) h = Query_skip conv n this h"
| "apply_call conv this Distinct h = Query_distinct this h"

definition run :: "(jsval \<Rightarrow> jsval) \<Rightarrow> addr \<Rightarrow> call list \<Rightarrow> heap \<Rightarrow> heap" where
  "run conv this cs h = fold (apply_call conv this) cs h"

text \<open>
  What a descriptor holds: its own properties and, for each property that refers to an
  array or object, that array or object.
\<close>

definition snapshot :: "heap \<Rightarrow> jsval \<Rightarrow> (string \<times> jsval \<times> jsobj option) list option" where
  "snapshot h d =
     (case propsOf h d of
        Some ps \<Rightarrow> Some (map (\<lambda>(k, v). (k, v, deref h v)) ps)
      | None \<Rightarrow> None)"

text \<open>\<open>frame S h h'\<close>: the store \<open>h'\<close> has every cell of \<open>h\<close>, unchanged outside \<open>S\<close>.\<close>

definition frame :: "addr set \<Rightarrow> heap \<Rightarrow> heap \<Rightarrow> bool" where
  "frame S h h' = (length h \<le> length h' \<and> (\<forall>a < length h. a \<notin> S \<longrightarrow> h' ! a = h ! a))"

text \<open>
  The cell \<open>n\<close> holds a plain object, and every reference among its property values
  is to a cell allocated after \<open>n\<close>.
\<close>

definition descriptor_cell :: "nat \<Rightarrow> heap \<Rightarrow> bool" where
  "descriptor_cell n h =
     (\<exists>ps. lookup h n = Some (Obj ps)
        \<and> (\<forall>(k, v) \<in> set ps. \<forall>c. v = JRef c \<longrightarrow> n < c \<and> c < length h))"

section \<open>Models (the file of \<open>Model\<close>)\<close>

definition getModel :: "heap \<Rightarrow> addr \<Rightarrow> model option" where
  "getModel h m = (case lookup h m of Some (ModelObj x) \<Rightarrow> Some x | _ \<Rightarrow> None)"

text \<open>\<open>newQuery\<close>: \<open>new Query(this, this.constructor.driver)\<close>.\<close>

definition Model_newQuery :: "addr \<Rightarrow> heap \<Rightarrow> jsval \<times> heap" where
  "Model_newQuery this h =
     Query_new
       [JRef this, (case getModel h this of Some m \<Rightarrow> m_driver m | None \<Rightarrow> JUndefined)] h"

text \<open>\<open>getKeyName\<close>: the option \<open>pk\<close>.\<close>

definition Model_getKeyName :: "jsval \<Rightarrow> heap \<Rightarrow> jsval" where
  "Model_getKeyName m h =
     (case deref h m of Some (ModelObj x) \<Rightarrow> JStr (m_pk x) | _ \<Rightarrow> JUndefined)"

text \<open>
  Modelled from the spec: the attribute container behind \<open>this.data\<close> is not in the
  sources; the spec calls it a plain mutable key-value store read with \<open>get\<close>. A missing
  attribute reads as \<open>undefined\<close>.
\<close>

definition Model_get :: "jsval \<Rightarrow> jsval \<Rightarrow> heap \<Rightarrow> jsval" where
  "Model_get m attr h =
     (case deref h m of
        Some (ModelObj x) \<Rightarrow>
          (case map_of (m_data x) (toPropertyKey attr) of Some v \<Rightarrow> v | None \<Rightarrow> JUndefined)
      | _ \<Rightarrow> JUndefined)"

definition Model_getId :: "jsval \<Rightarrow> heap \<Rightarrow> jsval" where
  "Model_getId m h = Model_get m (Model_getKeyName m h) h"

text \<open>
  Modelled from the spec: \<open>related(name)\<close> is not in the sources; it gives the model
  stored under a relation name, here the embedded pivot record of an entity.
\<close>

definition Model_related :: "jsval \<Rightarrow> string \<Rightarrow> heap \<Rightarrow> jsval" where
  "Model_related m name h =
     (case deref h m of
        Some (ModelObj x) \<Rightarrow>
          (case map_of (m_related x) name of Some v \<Rightarrow> v | None \<Rightarrow> JUndefined)
      | _ \<Rightarrow> JUndefined)"

section \<open>Calls to the driver\<close>

text \<open>
  The driver is outside the sources. \<open>insert\<close>, \<open>update\<close> and \<open>destroy\<close> hand the
  assembled descriptor to \<open>this.driver\<close>; the call they make is recorded as a value:
  receiver, method name, arguments.
\<close>

datatype driver_call = DriverCall jsval string "jsval list"

definition Query_destroy :: "addr \<Rightarrow> heap \<Rightarrow> driver_call \<times> heap" where
  "Query_destroy this h0 =
     (let (d, h1) = Query_assemble this h0;
          driver = (case getQuery h1 this of Some t \<Rightarrow> q_driver t | None \<Rightarrow> JUndefined)
      in (DriverCall driver ''destroy'' [d], h1))"

section \<open>BelongsToMany (src/relations/belongs-to-many.js)\<close>

text \<open>
  The relation object: \<open>parent\<close>, \<open>related\<close> and \<open>query\<close> are set by the base
  \<open>Relation\<close> constructor (not in the sources), \<open>pivot\<close>, \<open>localKey\<close> and \<open>otherKey\<close> by
  \<open>through\<close>.
\<close>

record belongs_to_many =
  r_parent :: jsval
  r_related :: jsval
  r_query :: addr
  r_pivot :: addr
  r_localKey :: jsval
  r_otherKey :: jsval

definition newPivotQuery :: "belongs_to_many \<Rightarrow> heap \<Rightarrow> jsval \<times> heap" where
  "newPivotQuery r h0 =
     (let (query, h1) = Model_newQuery (r_pivot r) h0
      in case query of
           JRef q \<Rightarrow> (query, Query_where [r_localKey r, Model_getId (r_parent r) h1] q h1)
         | _ \<Rightarrow> (query, h1))"

text \<open>
  \<open>detach(ids, cb)\<close>, called with the argument list \<open>args\<close>. The promise it returns is
  that of the driver's \<open>destroy\<close>; the model returns the call made to the driver.
\<close>

definition detach :: "jsval list \<Rightarrow> belongs_to_many \<Rightarrow> heap \<Rightarrow> driver_call option \<times> heap" where
  "detach args r h0 =
     (let (query, h1) = newPivotQuery r h0;
          ids0 = arg args 0;
          (ids1, h2) = (if isFunction ids0 then alloc (Arr []) h1 else (ids0, h1));
          ids2 = (if instanceofModel h2 ids1 then Model_getId ids1 h2 else ids1);
          (ids3, h3) = (if \<not> isArray h2 ids2 then alloc (Arr [ids2]) h2 else (ids2, h2));
          h4 = (case query of
                  JRef q \<Rightarrow>
                    (if length (elems h3 ids3) > 0
                     then Query_whereIn (r_otherKey r) ids3 q h3 else h3)
                | _ \<Rightarrow> h3)
      in case query of
           JRef q \<Rightarrow> (let (c, h5) = Query_destroy q h4 in (Some c, h5))
         | _ \<Rightarrow> (None, h4))"

text \<open>
  Modelled from the spec: \<open>_getKeys(models, key)\<close> belongs to the base \<open>Relation\<close>, which
  is not in the sources; the spec has the pivot sub-query filtered to the ids of all the
  parents, so it collects the attribute \<open>key\<close> of each model into a new array.
\<close>

definition getKeys :: "jsval list \<Rightarrow> jsval \<Rightarrow> heap \<Rightarrow> jsval \<times> heap" where
  "getKeys models key h = alloc (Arr (map (\<lambda>m. Model_get m key h) models)) h"

definition applyEagerConstraints :: "jsval list \<Rightarrow> belongs_to_many \<Rightarrow> heap \<Rightarrow> heap" where
  "applyEagerConstraints models r h0 =
     (let (subQuery, h1) = newPivotQuery r h0;
          local = Model_getKeyName (r_parent r) h1;
          other = Model_getKeyName (r_related r) h1;
          (keys, h2) = getKeys models local h1
      in case subQuery of
           JRef s \<Rightarrow>
             (let h3 = Query_whereIn (r_localKey r) keys s h2;
                  h4 = Query_select [r_otherKey r] s h3;
                  h5 = Query_distinct s h4
              in Query_whereIn other subQuery (r_query r) h5)
         | _ \<Rightarrow> h2)"

section \<open>fetch and fetchAll (src/query.js)\<close>

text \<open>
  A promise is modelled by its outcome. \<open>Thrown\<close> is any error raised by code outside
  the sources (the driver, the model's \<open>setData\<close> and \<open>newInstance\<close>).
\<close>

datatype error = ModelNotFound | TypeError string | Thrown jsval

datatype 'a promise = Resolved 'a | Rejected error

text \<open>
  What the builder calls but the sources do not define: the driver's \<open>fetch\<close> and
  \<open>fetchAll\<close> (receiver, descriptor), the model's \<open>setData\<close> and \<open>newInstance\<close>
  (receiver \<open>this.model\<close>, which may not exist; the record), and bluebird's mapping of
  an array through a mapper function.
\<close>

record env =
  driver_fetch :: "jsval \<Rightarrow> jsval \<Rightarrow> heap \<Rightarrow> jsval promise \<times> heap"
  driver_fetchAll :: "jsval \<Rightarrow> jsval \<Rightarrow> heap \<Rightarrow> jsval promise \<times> heap"
  model_setData :: "jsval option \<Rightarrow> jsval \<Rightarrow> heap \<Rightarrow> jsval promise \<times> heap"
  model_newInstance :: "jsval option \<Rightarrow> jsval \<Rightarrow> heap \<Rightarrow> jsval promise \<times> heap"
  bluebird_map :: "jsval \<Rightarrow> heap \<Rightarrow> jsval promise \<times> heap"

text \<open>
  Modelled from the documentation of bluebird, which is not in the sources:
  \<open>promise.map(mapper, options)\<close> takes the mapper function first and is rejected with
  a \<open>TypeError\<close> when \<open>mapper\<close> is not a function.
\<close>

definition Promise_map :: "env \<Rightarrow> jsval \<Rightarrow> heap \<Rightarrow> jsval promise \<times> heap" where
  "Promise_map e mapper h =
     (if isFunction mapper then bluebird_map e mapper h
      else (Rejected (TypeError ''expecting a function''), h))"

text \<open>\<open>_.keys\<close>: the names of the own enumerable properties of an object.\<close>

definition keys :: "heap \<Rightarrow> jsval \<Rightarrow> jsval list" where
  "keys h v = (case deref h v of Some ob \<Rightarrow> map (\<lambda>(k, x). JStr k) (ownProps ob) | None \<Rightarrow> [])"

text \<open>
  \<open>loadRelated(models)\<close>: \<open>Promise.bind(this).map(_.keys(this._rels), iterateRelations)\<close>.
  The array of relation names is in the place of the mapper.
\<close>

definition Query_loadRelated :: "env \<Rightarrow> jsval \<Rightarrow> addr \<Rightarrow> heap \<Rightarrow> jsval promise \<times> heap" where
  "Query_loadRelated e models this h0 =
     (case getQuery h0 this of
        None \<Rightarrow> (Rejected (TypeError ''not a Query''), h0)
      | Some t \<Rightarrow>
          (let (names, h1) = alloc (Arr (keys h0 (q_rels t))) h0
           in Promise_map e names h1))"

definition Query_fetch :: "env \<Rightarrow> addr \<Rightarrow> heap \<Rightarrow> jsval promise \<times> heap" where
  "Query_fetch e this h0 =
     (case getQuery h0 this of
        None \<Rightarrow> (Rejected (TypeError ''not a Query''), h0)
      | Some t \<Rightarrow>
          (let (d, h1) = Query_assemble this h0
           in case driver_fetch e (q_driver t) d h1 of
                (Rejected err, h2) \<Rightarrow> (Rejected err, h2)
              | (Resolved resp, h2) \<Rightarrow>
                  (if isEmpty h2 resp then (Rejected ModelNotFound, h2)
                   else
                     (case model_setData e (q_model t) resp h2 of
                        (Rejected err, h3) \<Rightarrow> (Rejected err, h3)
                      | (Resolved m, h3) \<Rightarrow>
                          (let (ms, h4) = alloc (Arr [m]) h3
                           in case Query_loadRelated e ms this h4 of
                                (Rejected err, h5) \<Rightarrow> (Rejected err, h5)
                              | (Resolved x, h5) \<Rightarrow> (Resolved m, h5))))))"

text \<open>The values \<open>_.map\<close> visits: the elements of an array, the property values of an object.\<close>

definition map_values :: "heap \<Rightarrow> jsval \<Rightarrow> jsval list" where
  "map_values h v =
     (case v of
        JStr s \<Rightarrow> map (\<lambda>c. JStr [c]) s
      | _ \<Rightarrow>
          (case deref h v of
             Some (Arr xs) \<Rightarrow> xs
           | Some ob \<Rightarrow> map snd (ownProps ob)
           | None \<Rightarrow> []))"

fun newInstances :: "env \<Rightarrow> jsval option \<Rightarrow> jsval list \<Rightarrow> heap \<Rightarrow> jsval list promise \<times> heap" where
  "newInstances e m [] h = (Resolved [], h)"
| "newInstances e m (x # xs) h =
     (case model_newInstance e m x h of
        (Rejected err, h1) \<Rightarrow> (Rejected err, h1)
      | (Resolved v, h1) \<Rightarrow>
          (case newInstances e m xs h1 of
             (Rejected err, h2) \<Rightarrow> (Rejected err, h2)
           | (Resolved vs, h2) \<Rightarrow> (Resolved (v # vs), h2)))"

definition Query_fetchAll :: "env \<Rightarrow> addr \<Rightarrow> heap \<Rightarrow> jsval promise \<times> heap" where
  "Query_fetchAll e this h0 =
     (case getQuery h0 this of
        None \<Rightarrow> (Rejected (TypeError ''not a Query''), h0)
      | Some t \<Rightarrow>
          (let (d, h1) = Query_assemble this h0
           in case driver_fetchAll e (q_driver t) d h1 of
                (Rejected err, h2) \<Rightarrow> (Rejected err, h2)
              | (Resolved resp, h2) \<Rightarrow>
                  (case newInstances e (q_model t) (map_values h2 resp) h2 of
                     (Rejected err, h3) \<Rightarrow> (Rejected err, h3)
                   | (Resolved vs, h3) \<Rightarrow>
                       (let (ms, h4) = alloc (Arr vs) h3
                        in case Query_loadRelated e ms this h4 of
                             (Rejected err, h5) \<Rightarrow> (Rejected err, h5)
                           | (Resolved x, h5) \<Rightarrow> (Resolved ms, h5)))))"

section \<open>The many-to-many mixin (src/relations/mixins/many-to-many.js)\<close>

definition cleanPivotAttributes :: "jsval list \<Rightarrow> heap \<Rightarrow> jsval list \<times> heap" where
  "cleanPivotAttributes models h = (models, h)"

text \<open>
  Modelled from the spec: \<open>groupBy\<close> belongs to the collection class, which is not in the
  sources; it groups the entities into a mapping from the value of the key function to
  the sequence of entities sharing that value. The keys of the mapping are property
  names.
\<close>

fun groupBy_into ::
  "(string \<times> jsval list) list \<Rightarrow> (jsval \<Rightarrow> string) \<Rightarrow> jsval list \<Rightarrow> (string \<times> jsval list) list"
where
  "groupBy_into acc f [] = acc"
| "groupBy_into acc f (x # xs) =
     groupBy_into
       (case map_of acc (f x) of
          None \<Rightarrow> acc @ [(f x, [x])]
        | Some ys \<Rightarrow> AList.update (f x) (ys @ [x]) acc) f xs"

definition groupBy :: "(jsval \<Rightarrow> string) \<Rightarrow> jsval list \<Rightarrow> (string \<times> jsval list) list" where
  "groupBy f xs = groupBy_into [] f xs"

text \<open>
  \<open>buildDictionary(models, key)\<close>. The key function reads \<open>model.related('pivot').get(key)\<close>,
  which throws when an entity has no pivot.
\<close>

definition buildDictionary ::
  "jsval list \<Rightarrow> jsval \<Rightarrow> heap \<Rightarrow> (error + (string \<times> jsval list) list) \<times> heap" where
  "buildDictionary models key h0 =
     (let (cleaned, h1) = cleanPivotAttributes models h0
      in if list_ex (\<lambda>m. \<not> instanceofModel h1 (Model_related m ''pivot'' h1)) models
         then (Inl (TypeError ''Cannot read property get of undefined''), h1)
         else (Inr (groupBy
                 (\<lambda>m. toPropertyKey (Model_get (Model_related m ''pivot'' h1) key h1))
                 models), h1))"

section \<open>Example stores\<close>

text \<open>
  A user with id 1 and a second user with id 2 (cells 0 and 8), a role (cell 1), a
  pivot model (cell 2), the relation's own query (cell 7, with its four objects in cells
  3 to 6) and the array \<open>[4, 5]\<close> (cell 9).
\<close>

definition example_model :: "props \<Rightarrow> props \<Rightarrow> model" where
  "example_model attrs rels =
     \<lparr> m_driver = JStr ''driver'', m_pk = ''id'', m_data = attrs, m_related = rels,
       m_proto = [] \<rparr>"

definition user_roles :: belongs_to_many where
  "user_roles =
     \<lparr> r_parent = JRef 0, r_related = JRef 1, r_query = 7, r_pivot = 2,
       r_localKey = JStr ''user_id'', r_otherKey = JStr ''role_id'' \<rparr>"

definition user_roles_store :: heap where
  "user_roles_store =
     [ModelObj (example_model [(''id'', JNum 1)] []), ModelObj (example_model [] []),
      ModelObj (example_model [] []),
      Obj [], Obj [], Arr [], Arr [],
      QueryObj \<lparr> q_where = JRef 3, q_rels = JRef 4, q_select = JRef 5, q_order = JRef 6,
        q_distinct = JBool False, q_offset = JUndefined, q_limit = JUndefined,
        q_from = JUndefined, q_driver = JRef 1, q_model = None \<rparr>,
      ModelObj (example_model [(''id'', JNum 2)] []), Arr [JNum 4, JNum 5]]"

text \<open>
  Three roles fetched through the pivot (cells 0, 2 and 4), each with its pivot record
  (cells 1, 3 and 5); the pivot attribute \<open>k\<close> is 1, 1 and 2.
\<close>

definition pivot_store :: heap where
  "pivot_store =
     [ModelObj (example_model [(''id'', JNum 10)] [(''pivot'', JRef 1)]),
      ModelObj (example_model [(''k'', JNum 1)] []),
      ModelObj (example_model [(''id'', JNum 11)] [(''pivot'', JRef 3)]),
      ModelObj (example_model [(''k'', JNum 1)] []),
      ModelObj (example_model [(''id'', JNum 12)] [(''pivot'', JRef 5)]),
      ModelObj (example_model [(''k'', JNum 2)] [])]"

text \<open>
  A driver whose \<open>fetch\<close> resolves to \<open>null\<close> and whose \<open>fetchAll\<close> resolves to a new
  empty array; the model's functions and bluebird's mapping are left open.
\<close>

definition empty_driver ::
  "(jsval option \<Rightarrow> jsval \<Rightarrow> heap \<Rightarrow> jsval promise \<times> heap) \<Rightarrow>
   (jsval option \<Rightarrow> jsval \<Rightarrow> heap \<Rightarrow> jsval promise \<times> heap) \<Rightarrow>
   (jsval \<Rightarrow> heap \<Rightarrow> jsval promise \<times> heap) \<Rightarrow> env" where
  "empty_driver sd ni bm =
     \<lparr> driver_fetch = (\<lambda>drv d h. (Resolved JNull, h)),
       driver_fetchAll = (\<lambda>drv d h. (Resolved (JRef (length h)), h @ [Arr []])),
       model_setData = sd, model_newInstance = ni, bluebird_map = bm \<rparr>"

section \<open>Facts about the store\<close>

lemma isArray_append: "isArray h v \<Longrightarrow> isArray (h @ hs) v"
  by (auto simp: isArray_def deref_def lookup_def nth_append
      split: jsval.splits option.splits jsobj.splits if_splits)

lemma isArray_deref: "isArray h v \<Longrightarrow> \<exists>xs. deref h v = Some (Arr xs)"
  by (auto simp: isArray_def split: option.splits jsobj.splits)

lemma getQuery_append: "getQuery h this = Some t \<Longrightarrow> getQuery (h @ hs) this = Some t"
  by (auto simp: getQuery_def lookup_def nth_append split: if_splits option.splits jsobj.splits)

lemma getQuery_update:
  "getQuery h this = Some t \<Longrightarrow> getQuery (h[this := QueryObj t']) this = Some t'"
  by (auto simp: getQuery_def lookup_def split: if_splits option.splits jsobj.splits)

lemma deref_append: "deref h v = Some ob \<Longrightarrow> deref (h @ hs) v = Some ob"
  by (auto simp: deref_def lookup_def nth_append split: jsval.splits if_splits)

lemma deref_Arr_update:
  "deref h v = Some (Arr xs) \<Longrightarrow> getQuery h this = Some t
   \<Longrightarrow> deref (h[this := QueryObj t']) v = Some (Arr xs)"
  by (auto simp: deref_def getQuery_def lookup_def nth_list_update
      split: jsval.splits if_splits option.splits jsobj.splits)

lemma elems_fresh: "elems (h @ [Arr xs]) (JRef (length h)) = xs"
  by (simp add: elems_def deref_def lookup_def)

lemma elems_fresh2: "elems (h @ [ob, Arr xs]) (JRef (Suc (length h))) = xs"
  by (simp add: elems_def deref_def lookup_def nth_append)

lemma set_AList_update:
  "(k', v') \<in> set (AList.update k v ps) \<Longrightarrow> (k', v') = (k, v) \<or> (k', v') \<in> set ps"
  by (induction ps) (auto split: if_splits)

subsection \<open>Frames\<close>

lemma frame_refl: "frame S h h"
  by (simp add: frame_def)

lemma frame_trans: "frame S h h1 \<Longrightarrow> frame S h1 h2 \<Longrightarrow> frame S h h2"
  by (auto simp: frame_def)

lemma frame_mono: "frame S h h' \<Longrightarrow> S \<subseteq> T \<Longrightarrow> frame T h h'"
  by (auto simp: frame_def)

lemma frame_append: "frame S h (h @ hs)"
  by (simp add: frame_def nth_append)

lemma frame_alloc: "alloc ob h = (v, h') \<Longrightarrow> frame S h h'"
  by (auto simp: alloc_def frame_append)

lemma frame_update: "a \<in> S \<Longrightarrow> frame S h (h[a := x])"
  by (auto simp: frame_def intro!: nth_list_update_neq)

lemma frame_lookup: "frame S h h' \<Longrightarrow> a < length h \<Longrightarrow> a \<notin> S \<Longrightarrow> lookup h' a = lookup h a"
  by (auto simp: frame_def lookup_def)

lemma frame_empty_lookup: "frame {} h h' \<Longrightarrow> a < length h \<Longrightarrow> lookup h' a = lookup h a"
  by (rule frame_lookup) auto

lemma frame_length: "frame S h h' \<Longrightarrow> length h \<le> length h'"
  by (simp add: frame_def)

lemma frame_getQuery:
  "frame S h h' \<Longrightarrow> getQuery h this = Some t \<Longrightarrow> this \<notin> S \<Longrightarrow> getQuery h' this = Some t"
  by (auto simp: getQuery_def lookup_def frame_def split: if_splits option.splits jsobj.splits)

lemma frame_extend: "frame {a} h (extend_js (JRef a) src h)"
  by (auto simp: extend_js_def frame_refl frame_update split: option.splits jsobj.splits)

lemma extend_lookup_keep:
  "lookup h a = Some ob \<Longrightarrow> \<forall>ps. ob \<noteq> Obj ps \<Longrightarrow> lookup (extend_js dest src h) a = Some ob"
  by (auto simp: extend_js_def lookup_def nth_list_update split: jsval.splits option.splits jsobj.splits if_splits)

lemma length_extend: "length (extend_js dest src h) = length h"
  by (auto simp: extend_js_def split: jsval.splits option.splits jsobj.splits)

lemma getQuery_extend: "getQuery (extend_js dest src h) this = getQuery h this"
proof (cases "lookup h this")
  case None
  then show ?thesis
    by (auto simp: getQuery_def lookup_def length_extend split: if_splits)
next
  case (Some ob)
  show ?thesis
  proof (cases "\<exists>ps. ob = Obj ps")
    case True
    then have "getQuery h this = None" using Some by (auto simp: getQuery_def)
    moreover have "\<exists>ps. lookup (extend_js dest src h) this = Some (Obj ps)"
      using Some True
      by (auto simp: extend_js_def lookup_def nth_list_update
          split: jsval.splits option.splits jsobj.splits if_splits)
    ultimately show ?thesis by (auto simp: getQuery_def)
  next
    case False
    then have "lookup (extend_js dest src h) this = Some ob"
      using Some by (auto intro: extend_lookup_keep)
    then show ?thesis using Some by (simp add: getQuery_def)
  qed
qed

lemma frame_slice: "slice v h = (v', h') \<Longrightarrow> frame S h h'"
  by (auto simp: slice_def frame_refl alloc_def frame_append split: option.splits jsobj.splits)

lemma frame_object_of: "object_of k v h = (v', h') \<Longrightarrow> frame S h h'"
  by (auto simp: object_of_def frame_refl alloc_def frame_append split: if_splits)

section \<open>Evaluation\<close>

lemma Query_new_unfold:
  "Query_new args h0 =
     (JRef (length h0 + 4),
      h0 @ [Obj [], Obj [], Arr [], Arr [],
        QueryObj \<lparr> q_where = JRef (length h0), q_rels = JRef (length h0 + 1),
          q_select = JRef (length h0 + 2), q_order = JRef (length h0 + 3),
          q_distinct = JBool False, q_offset = JUndefined, q_limit = JUndefined,
          q_from = JUndefined, q_driver = arg args 0, q_model = None \<rparr>])"
  by (simp add: Query_new_def alloc_def)

lemma Query_new_eval:
  "Query_new [d] [] =
     (JRef 4,
      [Obj [], Obj [], Arr [], Arr [],
       QueryObj \<lparr> q_where = JRef 0, q_rels = JRef 1, q_select = JRef 2, q_order = JRef 3,
         q_distinct = JBool False, q_offset = JUndefined, q_limit = JUndefined,
         q_from = JUndefined, q_driver = d, q_model = None \<rparr>])"
  by (simp add: Query_new_def alloc_def arg_def)

lemma assemblePieces_unfold:
  "assemblePieces this q name h =
     (case getQuery h this of
        None \<Rightarrow> h
      | Some t \<Rightarrow>
          (let prop = query_prop t (''_'' @ name) in
           if isEmpty h prop then h
           else
             (let p1 = (if isArray h prop then slice prop h else (prop, h));
                  p2 = (if isObject (fst p1) then clone (fst p1) (snd p1) else p1)
              in setProp q name (fst p2) (snd p2))))"
  by (simp add: assemblePieces_def Let_def split_beta split: option.splits)

lemma Query_assemble_unfold:
  "Query_assemble this h =
     (JRef (length h),
      fold (assemblePieces this (JRef (length h))) assemble_props (h @ [Obj []]))"
  by (simp add: Query_assemble_def alloc_def)

lemma clone_unfold:
  "clone v h =
     (if \<not> isObject v then (v, h)
      else if isArray h v then slice v h
      else (JRef (length h), extend_js (JRef (length h)) v (h @ [Obj []])))"
  by (simp add: clone_def alloc_def)

lemma where_case3_unfold:
  "where_case3 key op val h =
     (let p1 = (case val of
                  JRef v \<Rightarrow> (if instanceofQuery h val then Query_assemble v h else (val, h))
                | _ \<Rightarrow> (val, h));
          p2 = object_of op (fst p1) (snd p1)
      in object_of key (fst p2) (snd p2))"
  by (simp add: where_case3_def Let_def split_beta)

lemma Query_where_unfold:
  "Query_where args this h0 =
     (let n = length args;
          key = arg args 0;
          h1 = h0 @ [Obj []];
          ov = (if n = 2 then where_case2 h1 (arg args 1) else (arg args 1, arg args 2));
          p3 = (if n = 2 \<or> n = 3 then where_case3 key (fst ov) (snd ov) h1
                else (JRef (length h0), h1));
          p4 = (if n = 2 \<or> n = 3 \<or> n = 1 then where_case1 key (snd p3) else p3)
      in case getQuery (snd p4) this of
           Some t \<Rightarrow> extend_js (q_where t) (fst p4) (snd p4)
         | None \<Rightarrow> snd p4)"
  by (simp add: Query_where_def Let_def split_beta alloc_def split: option.splits)

lemma Query_orWhere_unfold:
  "Query_orWhere args this h0 =
     Query_where [JRef (Suc (length h0))] this
       (h0 @ [Arr args, Obj [(''$or'', JRef (length h0))]])"
  by (simp add: Query_orWhere_def alloc_def)

lemma uniq_concat_unfold:
  "uniq_concat xs args h =
     (JRef (Suc (length h)),
      h @ [Arr (elems h xs @ elems h args), Arr (uniq (elems h xs @ elems h args))])"
  by (simp add: uniq_concat_def alloc_def elems_fresh)

lemma Query_select_unfold:
  "Query_select args this h0 =
     (case getQuery h0 this of
        None \<Rightarrow> h0
      | Some t \<Rightarrow>
          (let p1 = fields_of args h0;
               p2 = uniq_concat (q_select t) (fst p1) (snd p1)
           in updQuery this (\<lambda>t. t\<lparr>q_select := fst p2\<rparr>) (snd p2)))"
  by (simp add: Query_select_def Let_def split_beta split: option.splits)

lemma Query_order_unfold:
  "Query_order args this h0 =
     (case getQuery h0 this of
        None \<Rightarrow> h0
      | Some t \<Rightarrow>
          (let p1 = fields_of args h0;
               p2 = uniq_concat (q_order t) (fst p1) (snd p1)
           in updQuery this (\<lambda>t. t\<lparr>q_order := fst p2\<rparr>) (snd p2)))"
  by (simp add: Query_order_def Let_def split_beta split: option.splits)

lemma Query_destroy_unfold:
  "Query_destroy this h0 =
     (let p = Query_assemble this h0
      in (DriverCall (case getQuery (snd p) this of Some t \<Rightarrow> q_driver t | None \<Rightarrow> JUndefined)
            ''destroy'' [fst p], snd p))"
  by (simp add: Query_destroy_def Let_def split_beta)

lemma newPivotQuery_unfold:
  "newPivotQuery r h0 =
     (let p = Model_newQuery (r_pivot r) h0
      in case fst p of
           JRef q \<Rightarrow>
             (fst p, Query_where [r_localKey r, Model_getId (r_parent r) (snd p)] q (snd p))
         | _ \<Rightarrow> p)"
  by (cases "Model_newQuery (r_pivot r) h0")
    (simp add: newPivotQuery_def Let_def split: jsval.splits)

lemma detach_unfold:
  "detach args r h0 =
     (let p = newPivotQuery r h0;
          ids0 = arg args 0;
          p1 = (if isFunction ids0 then alloc (Arr []) (snd p) else (ids0, snd p));
          ids2 = (if instanceofModel (snd p1) (fst p1) then Model_getId (fst p1) (snd p1)
                  else fst p1);
          p3 = (if \<not> isArray (snd p1) ids2 then alloc (Arr [ids2]) (snd p1)
                else (ids2, snd p1));
          h4 = (case fst p of
                  JRef q \<Rightarrow>
                    (if length (elems (snd p3) (fst p3)) > 0
                     then Query_whereIn (r_otherKey r) (fst p3) q (snd p3) else snd p3)
                | _ \<Rightarrow> snd p3)
      in case fst p of
           JRef q \<Rightarrow> (let c = Query_destroy q h4 in (Some (fst c), snd c))
         | _ \<Rightarrow> (None, h4))"
  by (simp add: detach_def Let_def split_beta split: jsval.splits)

lemma applyEagerConstraints_unfold:
  "applyEagerConstraints models r h0 =
     (let p = newPivotQuery r h0;
          local = Model_getKeyName (r_parent r) (snd p);
          other = Model_getKeyName (r_related r) (snd p);
          k = getKeys models local (snd p)
      in case fst p of
           JRef s \<Rightarrow>
             (let h3 = Query_whereIn (r_localKey r) (fst k) s (snd k);
                  h4 = Query_select [r_otherKey r] s h3;
                  h5 = Query_distinct s h4
              in Query_whereIn other (fst p) (r_query r) h5)
         | _ \<Rightarrow> snd k)"
  by (simp add: applyEagerConstraints_def Let_def split_beta split: jsval.splits)

lemmas eval_store =
  alloc_def lookup_def deref_def arg_def getQuery_def updQuery_def setProp_def elems_def
  propsOf_def whereTree_def

lemmas eval_underscore =
  isArray_def isObject_def isFunction_def isEmpty_def instanceofQuery_def
  instanceofModel_def ownProps_def allProps_def allPropsOf_def assign_def extend_js_def
  slice_def clone_unfold uniq_def toPropertyKey_def

lemmas eval_query =
  Query_new_unfold query_prop_def assemblePieces_unfold assemble_props_def Query_assemble_unfold
  object_of_def where_case1_def where_case2_def where_case3_unfold Query_where_unfold Query_whereIn_def Query_orWhere_unfold Query_setModel_def
  Query_from_def fields_of_def uniq_concat_unfold Query_select_unfold Query_distinct_def
  Number_of_def Query_take_def Query_skip_def Query_order_unfold

lemmas eval_model = getModel_def Model_newQuery_def Model_getKeyName_def Model_get_def
  Model_getId_def Model_related_def Query_destroy_unfold newPivotQuery_unfold detach_unfold
  getKeys_def applyEagerConstraints_unfold

lemmas eval_example = example_model_def user_roles_def user_roles_store_def pivot_store_def
  empty_driver_def

section \<open>where\<close>

text \<open>
  C1. \<open>where('name', 'John')\<close> and \<open>where('status', '$ne', 'draft')\<close> on a new builder:
  the condition object is built and then replaced by \<open>{}\<close> in the body of \<open>case 1\<close>, so
  the builder's condition tree stays empty; it holds neither \<open>name\<close> nor \<open>status\<close>.
\<close>

theorem where_field_value_leaves_tree_empty:
  "whereTree (Query_where [JStr ''name'', JStr ''John'']
       4 (snd (Query_new [JStr ''driver''] []))) 4 = Some []
   \<and> whereTree (Query_where [JStr ''status'', JStr ''$ne'', JStr ''draft'']
       4 (snd (Query_new [JStr ''driver''] []))) 4 = Some []"
  by (simp add: Query_new_eval eval_store eval_underscore eval_query Let_def
      cong: prod.case_cong_weak let_weak_cong)

text \<open>
  C10. For a field name \<open>f\<close> and an array \<open>vs\<close>, \<open>where(f, vs)\<close> and
  \<open>where(f, '$in', vs)\<close> leave the same store, and so the same condition tree in the
  builder.
\<close>

theorem where_array_same_as_where_in:
  assumes "isArray h vs"
  shows "Query_where [JStr f, vs] this h = Query_where [JStr f, JStr ''$in'', vs] this h
         \<and> whereTree (Query_where [JStr f, vs] this h) this
           = whereTree (Query_where [JStr f, JStr ''$in'', vs] this h) this"
proof -
  have "isArray (h @ [Obj []]) vs"
    using assms by (rule isArray_append)
  then have "Query_where [JStr f, vs] this h = Query_where [JStr f, JStr ''$in'', vs] this h"
    by (simp add: Query_where_def where_case2_def alloc_def arg_def)
  then show ?thesis by simp
qed

theorem where_array_same_as_where_in_witness:
  "isArray (snd (Query_new [JStr ''driver''] [Arr [JNum 1, JNum 2, JNum 3]])) (JRef 0)
   \<and> Query_where [JStr ''x'', JRef 0] 5
        (snd (Query_new [JStr ''driver''] [Arr [JNum 1, JNum 2, JNum 3]]))
     = Query_where [JStr ''x'', JStr ''$in'', JRef 0] 5
        (snd (Query_new [JStr ''driver''] [Arr [JNum 1, JNum 2, JNum 3]]))"
proof -
  have a: "isArray (snd (Query_new [JStr ''driver''] [Arr [JNum 1, JNum 2, JNum 3]])) (JRef 0)"
    by (simp add: Query_new_def eval_store isArray_def)
  show ?thesis
    using where_array_same_as_where_in [OF a, of "''x''" 5] a by simp
qed

section \<open>assemble\<close>

text \<open>
  C3. \<open>take(5)\<close>, \<open>skip(10)\<close> and \<open>distinct()\<close> on a new builder set \<open>_limit\<close> to 5,
  \<open>_offset\<close> to 10 and \<open>_distinct\<close> to \<open>true\<close>, but the descriptor \<open>assemble()\<close> returns
  is \<open>{}\<close>: \<open>_.isEmpty\<close> holds of every number and boolean, so the three are skipped.
\<close>

theorem assemble_skips_limit_offset_distinct:
  "getQuery (Query_distinct 4 (Query_skip conv (JNum 10) 4 (Query_take conv (JNum 5) 4
       (snd (Query_new [JStr ''driver''] []))))) 4
     = Some \<lparr> q_where = JRef 0, q_rels = JRef 1, q_select = JRef 2, q_order = JRef 3,
         q_distinct = JBool True, q_offset = JNum 10, q_limit = JNum 5,
         q_from = JUndefined, q_driver = JStr ''driver'', q_model = None \<rparr>
   \<and> (case Query_assemble 4
         (Query_distinct 4 (Query_skip conv (JNum 10) 4 (Query_take conv (JNum 5) 4
           (snd (Query_new [JStr ''driver''] []))))) of
        (d, h) \<Rightarrow> propsOf h d) = Some []"
  by (simp add: Query_new_eval eval_store eval_underscore eval_query Let_def
      cong: prod.case_cong_weak let_weak_cong)

lemma copy_piece_fresh:
  assumes "(if isArray h prop then slice prop h else (prop, h)) = (prop1, h1)"
      and "(if isObject prop1 then clone prop1 h1 else (prop1, h1)) = (prop2, h2)"
  shows "frame {} h h2 \<and> (\<forall>c. prop2 = JRef c \<longrightarrow> length h \<le> c \<and> c < length h2)"
proof (cases "isArray h prop")
  case True
  then obtain xs where xs: "deref h prop = Some (Arr xs)"
    by (auto simp: isArray_def split: option.splits jsobj.splits)
  with True assms(1) have p1: "prop1 = JRef (length h)" "h1 = h @ [Arr xs]"
    by (auto simp: slice_def alloc_def)
  have "isArray h1 prop1" "isObject prop1" "deref h1 prop1 = Some (Arr xs)"
    using p1 by (simp_all add: isArray_def isObject_def deref_def lookup_def)
  with assms(2) p1 have "prop2 = JRef (Suc (length h))" "h2 = h @ [Arr xs, Arr xs]"
    by (auto simp: clone_def slice_def alloc_def)
  then show ?thesis by (simp add: frame_append)
next
  case False
  with assms(1) have p1: "prop1 = prop" "h1 = h" by auto
  show ?thesis
  proof (cases "isObject prop")
    case True
    with False assms(2) p1 have
      "prop2 = JRef (length h)" "h2 = extend_js (JRef (length h)) prop (h @ [Obj []])"
      by (auto simp: clone_def alloc_def)
    moreover have "frame {length h} (h @ [Obj []]) (extend_js (JRef (length h)) prop (h @ [Obj []]))"
      by (rule frame_extend)
    ultimately show ?thesis
      by (auto simp: frame_def nth_append length_extend)
  next
    case False
    with assms(2) p1 have "prop2 = prop" "h2 = h" by auto
    with False show ?thesis by (auto simp: frame_refl isObject_def)
  qed
qed

lemma assemblePieces_inv:
  assumes "descriptor_cell n h"
  shows "frame {n} h (assemblePieces this (JRef n) name h)
         \<and> descriptor_cell n (assemblePieces this (JRef n) name h)"
proof (cases "getQuery h this")
  case None
  with assms show ?thesis by (simp add: assemblePieces_def frame_refl)
next
  case (Some t)
  let ?piece = "query_prop t (CHR ''_'' # name)"
  show ?thesis
  proof (cases "isEmpty h ?piece")
    case True
    with Some assms show ?thesis by (simp add: assemblePieces_def frame_refl)
  next
    case False
    obtain prop1 h1 where a: "(if isArray h ?piece then slice ?piece h else (?piece, h)) = (prop1, h1)"
      by fastforce
    obtain prop2 h2 where b: "(if isObject prop1 then clone prop1 h1 else (prop1, h1)) = (prop2, h2)"
      by fastforce
    from copy_piece_fresh [OF a b] have
      f: "frame {} h h2" and c: "\<forall>c. prop2 = JRef c \<longrightarrow> length h \<le> c \<and> c < length h2"
      by auto
    have r: "assemblePieces this (JRef n) name h = setProp (JRef n) name prop2 h2"
      using Some False a b by (simp add: assemblePieces_def Let_def)
    from assms obtain ps where ps: "lookup h n = Some (Obj ps)"
      "\<forall>(k, v) \<in> set ps. \<forall>c. v = JRef c \<longrightarrow> n < c \<and> c < length h"
      by (auto simp: descriptor_cell_def)
    then have n: "n < length h" by (auto simp: lookup_def split: if_splits)
    have l2: "lookup h2 n = Some (Obj ps)"
      using frame_empty_lookup [OF f n] ps by simp
    have len: "length h \<le> length h2" using f by (rule frame_length)
    have s: "setProp (JRef n) name prop2 h2 = h2[n := Obj (AList.update name prop2 ps)]"
      using l2 by (simp add: setProp_def)
    have fr: "frame {n} h (h2[n := Obj (AList.update name prop2 ps)])"
      using f by (auto simp: frame_def nth_list_update)
    have dc: "descriptor_cell n (h2[n := Obj (AList.update name prop2 ps)])"
      using ps c n len
      by (fastforce simp: descriptor_cell_def lookup_def dest: set_AList_update)
    show ?thesis using r s fr dc by simp
  qed
qed

lemma fold_assemblePieces_inv:
  "descriptor_cell n h \<Longrightarrow>
     frame {n} h (fold (assemblePieces this (JRef n)) names h)
     \<and> descriptor_cell n (fold (assemblePieces this (JRef n)) names h)"
proof (induction names arbitrary: h)
  case Nil
  then show ?case by (simp add: frame_refl)
next
  case (Cons name names)
  from assemblePieces_inv [OF Cons.prems, of this name]
  have a: "frame {n} h (assemblePieces this (JRef n) name h)"
    and b: "descriptor_cell n (assemblePieces this (JRef n) name h)" by auto
  from Cons.IH [OF b] a show ?case
    by (auto intro: frame_trans)
qed

lemma Query_assemble_result:
  assumes "Query_assemble this h = (d, h1)"
  shows "d = JRef (length h) \<and> frame {} h h1 \<and> descriptor_cell (length h) h1"
proof -
  have dc: "descriptor_cell (length h) (h @ [Obj []])"
    by (simp add: descriptor_cell_def lookup_def)
  from fold_assemblePieces_inv [OF dc, of this assemble_props]
  have "frame {length h} (h @ [Obj []]) h1" "descriptor_cell (length h) h1"
    using assms by (auto simp: Query_assemble_unfold)
  moreover from this(1) have "frame {} h h1"
    by (auto simp: frame_def nth_append)
  ultimately show ?thesis using assms by (simp add: Query_assemble_unfold)
qed

section \<open>select and order\<close>

lemma set_uniq_into: "set (uniq_into r xs) = set r \<union> set xs"
  by (induction xs arbitrary: r) auto

lemma distinct_uniq_into: "distinct r \<Longrightarrow> distinct (uniq_into r xs)"
  by (induction xs arbitrary: r) auto

lemma uniq_into_append: "uniq_into r (xs @ ys) = uniq_into (uniq_into r xs) ys"
  by (induction xs arbitrary: r) auto

lemma uniq_into_distinct: "distinct (r @ xs) \<Longrightarrow> uniq_into r xs = r @ xs"
  by (induction xs arbitrary: r) auto

lemma uniq_into_filter: "uniq_into r xs = r @ uniq_into [] [x\<leftarrow>xs. x \<notin> set r]"
proof (induction xs arbitrary: r rule: length_induct)
  case (1 xs)
  show ?case
  proof (cases xs)
    case Nil
    then show ?thesis by simp
  next
    case (Cons y ys)
    show ?thesis
    proof (cases "y \<in> set r")
      case True
      with Cons 1 show ?thesis by simp
    next
      case False
      have a: "uniq_into (r @ [y]) ys = (r @ [y]) @ uniq_into [] [x\<leftarrow>ys. x \<notin> set (r @ [y])]"
        using 1 Cons by simp
      have "length [x\<leftarrow>ys. x \<notin> set r] < length xs"
        using Cons by (simp add: less_Suc_eq_le)
      then have b: "uniq_into [y] [x\<leftarrow>ys. x \<notin> set r]
          = [y] @ uniq_into [] [x\<leftarrow>[x\<leftarrow>ys. x \<notin> set r]. x \<notin> set [y]]"
        using 1 by blast
      have c: "[x\<leftarrow>[x\<leftarrow>ys. x \<notin> set r]. x \<notin> set [y]] = [x\<leftarrow>ys. x \<notin> set (r @ [y])]"
        by (induction ys) auto
      show ?thesis using a b c Cons False by simp
    qed
  qed
qed

lemma filter_uniq_into: "filter P (uniq_into r xs) = uniq_into (filter P r) (filter P xs)"
  by (induction xs arbitrary: r) auto

lemma set_uniq: "set (uniq xs) = set xs"
  by (simp add: uniq_def set_uniq_into)

lemma distinct_uniq: "distinct (uniq xs)"
  by (simp add: uniq_def distinct_uniq_into)

lemma uniq_distinct: "distinct xs \<Longrightarrow> uniq xs = xs"
  using uniq_into_distinct [of "[]" xs] by (simp add: uniq_def)

lemma uniq_append: "uniq (xs @ ys) = uniq xs @ [y\<leftarrow>uniq ys. y \<notin> set xs]"
proof -
  have "uniq (xs @ ys) = uniq_into (uniq xs) ys"
    by (simp add: uniq_def uniq_into_append)
  also have "\<dots> = uniq xs @ uniq_into [] [y\<leftarrow>ys. y \<notin> set (uniq xs)]"
    by (rule uniq_into_filter)
  also have "\<dots> = uniq xs @ uniq_into [] [y\<leftarrow>ys. y \<notin> set xs]"
    by (simp add: set_uniq)
  also have "\<dots> = uniq xs @ [y\<leftarrow>uniq ys. y \<notin> set xs]"
    by (simp add: uniq_def filter_uniq_into)
  finally show ?thesis .
qed

lemma uniq_uniq_append: "uniq (uniq xs @ ys) = uniq (xs @ ys)"
  by (simp add: uniq_append [of "uniq xs"] uniq_append [of xs] set_uniq uniq_distinct distinct_uniq)

text \<open>
  The code's \<open>fields_of\<close> yields an array whose elements are the fields of the spec:
  an array argument is used as it is, other arguments are collected into a new array.
\<close>

lemma fields_of_spec:
  "case fields_of args h of (fs, h1) \<Rightarrow>
     isArray h1 fs \<and> elems h1 fs = spec_fields_given h args \<and> (\<exists>hs. h1 = h @ hs)"
proof (cases "isArray h (arg args 0)")
  case True
  then show ?thesis by (simp add: fields_of_def spec_fields_given_def)
next
  case False
  then show ?thesis
    by (simp add: fields_of_def spec_fields_given_def alloc_def elems_fresh isArray_def
        deref_def lookup_def)
qed

lemma uniq_concat_fields:
  assumes "deref h xs = Some (Arr old)"
  shows "case fields_of args h of (fs, h1) \<Rightarrow>
           (case uniq_concat xs fs h1 of (u, h2) \<Rightarrow>
              (\<exists>hs. h2 = h @ hs) \<and> u \<noteq> xs \<and> elems h2 u = uniq (old @ spec_fields_given h args))"
proof (cases "isArray h (arg args 0)")
  case True
  then obtain ys where ys: "deref h (arg args 0) = Some (Arr ys)"
    using isArray_deref by blast
  have e: "elems h xs = old" "elems h (arg args 0) = ys"
    using assms ys by (simp_all add: elems_def)
  have ne: "JRef (Suc (length h)) \<noteq> xs"
    using assms by (auto simp: deref_def lookup_def)
  show ?thesis
    using True e ne
    by (simp add: fields_of_def uniq_concat_def alloc_def spec_fields_given_def elems_fresh
        elems_fresh2)
next
  case False
  have e: "elems (h @ [Arr args]) xs = old"
    using assms by (simp add: elems_def deref_append)
  have ne: "JRef (Suc (Suc (length h))) \<noteq> xs"
    using assms by (auto simp: deref_def lookup_def)
  have f: "elems (h @ [Arr args, Arr (old @ args), Arr (uniq (old @ args))])
      (JRef (Suc (Suc (length h)))) = uniq (old @ args)"
    by (simp add: elems_def deref_def lookup_def nth_append)
  show ?thesis
    using False e ne f
    by (simp add: fields_of_def uniq_concat_def alloc_def spec_fields_given_def elems_fresh
        elems_fresh [of "h @ [Arr args]", simplified])
qed

lemma Query_select_step:
  assumes q: "getQuery h this = Some t" and s: "deref h (q_select t) = Some (Arr old)"
  shows "\<exists>u. getQuery (Query_select args this h) this = Some (t\<lparr>q_select := u\<rparr>)
           \<and> deref (Query_select args this h) u = Some (Arr (uniq (old @ spec_fields_given h args)))
           \<and> (\<forall>v xs. deref h v = Some (Arr xs) \<longrightarrow>
                 deref (Query_select args this h) v = Some (Arr xs))"
proof -
  obtain fs h1 where f: "fields_of args h = (fs, h1)" by (cases "fields_of args h")
  obtain u h2 where u: "uniq_concat (q_select t) fs h1 = (u, h2)"
    by (cases "uniq_concat (q_select t) fs h1")
  from uniq_concat_fields [OF s, of args] f u
  obtain hs where h2: "h2 = h @ hs" and e: "elems h2 u = uniq (old @ spec_fields_given h args)"
    by auto
  have isarr: "\<exists>xs. deref h2 u = Some (Arr xs)"
    using u by (auto simp: uniq_concat_def alloc_def deref_def lookup_def nth_append)
  then have du: "deref h2 u = Some (Arr (uniq (old @ spec_fields_given h args)))"
    using e by (auto simp: elems_def)
  have q2: "getQuery h2 this = Some t"
    using q h2 by (simp add: getQuery_append)
  have r: "Query_select args this h = h2[this := QueryObj (t\<lparr>q_select := u\<rparr>)]"
    using q f u q2 by (simp add: Query_select_def updQuery_def)
  show ?thesis
    using r q2 du h2 by (auto simp: getQuery_update deref_Arr_update deref_append)
qed

lemma Query_order_step:
  assumes q: "getQuery h this = Some t" and s: "deref h (q_order t) = Some (Arr old)"
  shows "\<exists>u. getQuery (Query_order args this h) this = Some (t\<lparr>q_order := u\<rparr>)
           \<and> deref (Query_order args this h) u = Some (Arr (uniq (old @ spec_fields_given h args)))
           \<and> (\<forall>v xs. deref h v = Some (Arr xs) \<longrightarrow>
                 deref (Query_order args this h) v = Some (Arr xs))"
proof -
  obtain fs h1 where f: "fields_of args h = (fs, h1)" by (cases "fields_of args h")
  obtain u h2 where u: "uniq_concat (q_order t) fs h1 = (u, h2)"
    by (cases "uniq_concat (q_order t) fs h1")
  from uniq_concat_fields [OF s, of args] f u
  obtain hs where h2: "h2 = h @ hs" and e: "elems h2 u = uniq (old @ spec_fields_given h args)"
    by auto
  have isarr: "\<exists>xs. deref h2 u = Some (Arr xs)"
    using u by (auto simp: uniq_concat_def alloc_def deref_def lookup_def nth_append)
  then have du: "deref h2 u = Some (Arr (uniq (old @ spec_fields_given h args)))"
    using e by (auto simp: elems_def)
  have q2: "getQuery h2 this = Some t"
    using q h2 by (simp add: getQuery_append)
  have r: "Query_order args this h = h2[this := QueryObj (t\<lparr>q_order := u\<rparr>)]"
    using q f u q2 by (simp add: Query_order_def updQuery_def)
  show ?thesis
    using r q2 du h2 by (auto simp: getQuery_update deref_Arr_update deref_append)
qed

lemma selectFields_select:
  assumes "getQuery h this = Some t" and "isArray h (q_select t)"
  shows "selectFields (Query_select args this h) this
           = uniq (selectFields h this @ spec_fields_given h args)
         \<and> (\<exists>t'. getQuery (Query_select args this h) this = Some t'
               \<and> isArray (Query_select args this h) (q_select t'))"
proof -
  obtain old where old: "deref h (q_select t) = Some (Arr old)"
    using assms(2) isArray_deref by blast
  from Query_select_step [OF assms(1) old, of args] obtain u where
    u: "getQuery (Query_select args this h) this = Some (t\<lparr>q_select := u\<rparr>)"
       "deref (Query_select args this h) u = Some (Arr (uniq (old @ spec_fields_given h args)))"
    by blast
  show ?thesis
    using u old assms(1) by (simp add: selectFields_def elems_def isArray_def)
qed

lemma orderFields_order:
  assumes "getQuery h this = Some t" and "isArray h (q_order t)"
  shows "orderFields (Query_order args this h) this
           = uniq (orderFields h this @ spec_fields_given h args)
         \<and> (\<exists>t'. getQuery (Query_order args this h) this = Some t'
               \<and> isArray (Query_order args this h) (q_order t'))"
proof -
  obtain old where old: "deref h (q_order t) = Some (Arr old)"
    using assms(2) isArray_deref by blast
  from Query_order_step [OF assms(1) old, of args] obtain u where
    u: "getQuery (Query_order args this h) this = Some (t\<lparr>q_order := u\<rparr>)"
       "deref (Query_order args this h) u = Some (Arr (uniq (old @ spec_fields_given h args)))"
    by blast
  show ?thesis
    using u old assms(1) by (simp add: orderFields_def elems_def isArray_def)
qed

text \<open>
  C8. \<open>select\<close> and \<open>order\<close> take either one array, whose elements are the fields, or
  any number of arguments, which are the fields (\<open>spec_fields_given\<close>). A call adds the
  fields it is given to those accumulated so far: after two calls the builder holds
  \<open>uniq\<close> of the old fields followed by the fields of the first and of the second call.
  \<open>uniq\<close> keeps the first occurrence of every value, in order: its result has no
  duplicates, the same members, and new values follow the earlier ones. The witness runs
  \<open>select('a')\<close> followed by \<open>select(['b', 'a'])\<close> and by \<open>select('b', 'a')\<close>, each
  leaving \<open>['a', 'b']\<close>, and \<open>order(['b', 'a'])\<close> followed by \<open>order('a', 'c')\<close>, leaving
  \<open>['b', 'a', 'c']\<close>.
\<close>

theorem select_order_accumulate:
  assumes "getQuery h this = Some t" and "isArray h (q_select t)" and "isArray h (q_order t)"
  shows "selectFields (Query_select as this h) this
           = uniq (selectFields h this @ spec_fields_given h as)
       \<and> selectFields (Query_select bs this (Query_select as this h)) this
           = uniq (selectFields h this @ spec_fields_given h as
                   @ spec_fields_given (Query_select as this h) bs)
       \<and> orderFields (Query_order as this h) this
           = uniq (orderFields h this @ spec_fields_given h as)
       \<and> orderFields (Query_order bs this (Query_order as this h)) this
           = uniq (orderFields h this @ spec_fields_given h as
                   @ spec_fields_given (Query_order as this h) bs)
       \<and> distinct (uniq zs) \<and> set (uniq zs) = set zs
       \<and> uniq (xs @ ys) = uniq xs @ [y\<leftarrow>uniq ys. y \<notin> set xs]"
proof -
  note s1 = selectFields_select [OF assms(1,2), of as]
  then obtain t1 where t1: "getQuery (Query_select as this h) this = Some t1"
    "isArray (Query_select as this h) (q_select t1)" by blast
  have s2: "selectFields (Query_select bs this (Query_select as this h)) this
           = uniq (selectFields h this @ spec_fields_given h as
                   @ spec_fields_given (Query_select as this h) bs)"
    using selectFields_select [OF t1, of bs] s1 by (simp add: uniq_uniq_append)
  note o1 = orderFields_order [OF assms(1,3), of as]
  then obtain t2 where t2: "getQuery (Query_order as this h) this = Some t2"
    "isArray (Query_order as this h) (q_order t2)" by blast
  have o2: "orderFields (Query_order bs this (Query_order as this h)) this
           = uniq (orderFields h this @ spec_fields_given h as
                   @ spec_fields_given (Query_order as this h) bs)"
    using orderFields_order [OF t2, of bs] o1 by (simp add: uniq_uniq_append)
  show ?thesis
    using s1 s2 o1 o2 distinct_uniq [of zs] set_uniq [of zs] uniq_append [of xs ys] by simp
qed

theorem select_order_accumulate_witness:
  "getQuery (snd (Query_new [JStr ''driver''] [Arr [JStr ''b'', JStr ''a'']])) 5
     = Some \<lparr> q_where = JRef 1, q_rels = JRef 2, q_select = JRef 3, q_order = JRef 4,
         q_distinct = JBool False, q_offset = JUndefined, q_limit = JUndefined,
         q_from = JUndefined, q_driver = JStr ''driver'', q_model = None \<rparr>
   \<and> isArray (snd (Query_new [JStr ''driver''] [Arr [JStr ''b'', JStr ''a'']])) (JRef 3)
   \<and> isArray (snd (Query_new [JStr ''driver''] [Arr [JStr ''b'', JStr ''a'']])) (JRef 4)
   \<and> selectFields (Query_select [JRef 0] 5
        (Query_select [JStr ''a''] 5
          (snd (Query_new [JStr ''driver''] [Arr [JStr ''b'', JStr ''a'']])))) 5
      = [JStr ''a'', JStr ''b'']
   \<and> selectFields (Query_select [JStr ''b'', JStr ''a''] 5
        (Query_select [JStr ''a''] 5
          (snd (Query_new [JStr ''driver''] [Arr [JStr ''b'', JStr ''a'']])))) 5
      = [JStr ''a'', JStr ''b'']
   \<and> orderFields (Query_order [JStr ''a'', JStr ''c''] 5
        (Query_order [JRef 0] 5
          (snd (Query_new [JStr ''driver''] [Arr [JStr ''b'', JStr ''a'']])))) 5
      = [JStr ''b'', JStr ''a'', JStr ''c'']"
proof -
  let ?h = "snd (Query_new [JStr ''driver''] [Arr [JStr ''b'', JStr ''a'']])"
  let ?t = "\<lparr> q_where = JRef 1, q_rels = JRef 2, q_select = JRef 3, q_order = JRef 4,
         q_distinct = JBool False, q_offset = JUndefined, q_limit = JUndefined,
         q_from = JUndefined, q_driver = JStr ''driver'', q_model = None \<rparr>"
  have h: "?h = [Arr [JStr ''b'', JStr ''a''], Obj [], Obj [], Arr [], Arr [], QueryObj ?t]"
    by (simp add: Query_new_unfold arg_def)
  have a: "getQuery ?h 5 = Some ?t"
    unfolding h by (simp add: eval_store)
  have b: "isArray ?h (q_select ?t)" "isArray ?h (q_order ?t)"
    unfolding h by (simp_all add: eval_store isArray_def)
  have c: "selectFields ?h 5 = []" "orderFields ?h 5 = []"
    unfolding h by (simp_all add: eval_store selectFields_def orderFields_def)
  have d: "spec_fields_given ?h [JStr ''a''] = [JStr ''a'']"
    "spec_fields_given ?h [JRef 0] = [JStr ''b'', JStr ''a'']"
    "spec_fields_given (Query_select [JStr ''a''] 5 ?h) [JRef 0] = [JStr ''b'', JStr ''a'']"
    "spec_fields_given (Query_select [JStr ''a''] 5 ?h) [JStr ''b'', JStr ''a'']
       = [JStr ''b'', JStr ''a'']"
    "spec_fields_given (Query_order [JRef 0] 5 ?h) [JStr ''a'', JStr ''c'']
       = [JStr ''a'', JStr ''c'']"
    unfolding h
    by (simp_all add: spec_fields_given_def eval_store eval_underscore eval_query Let_def
        cong: prod.case_cong_weak let_weak_cong)
  have e: "uniq [JStr ''a'', JStr ''b'', JStr ''a''] = [JStr ''a'', JStr ''b'']"
    "uniq [JStr ''b'', JStr ''a'', JStr ''a'', JStr ''c''] = [JStr ''b'', JStr ''a'', JStr ''c'']"
    by (simp_all add: uniq_def)
  note inst = select_order_accumulate [OF a b, where zs = "[] :: jsval list"
        and xs = "[] :: jsval list" and ys = "[] :: jsval list"]
  show ?thesis
    using inst [where as = "[JStr ''a'']" and bs = "[JRef 0]"]
      inst [where as = "[JStr ''a'']" and bs = "[JStr ''b'', JStr ''a'']"]
      inst [where as = "[JRef 0]" and bs = "[JStr ''a'', JStr ''c'']"]
      a b c d e by simp
qed

section \<open>A descriptor is a snapshot\<close>

lemma frame_where_case3:
  assumes "where_case3 key op val h = (c, h')"
  shows "frame {} h h'"
proof -
  obtain val1 ha where a:
    "(case val of
        JRef v \<Rightarrow> (if instanceofQuery h val then Query_assemble v h else (val, h))
      | _ \<Rightarrow> (val, h)) = (val1, ha)"
    by fastforce
  obtain inner hb where b: "object_of op val1 ha = (inner, hb)" by fastforce
  have c: "object_of key inner hb = (c, h')"
    using assms a b by (simp add: where_case3_def)
  have "frame {} h ha"
    using a by (auto simp: frame_refl dest: Query_assemble_result split: jsval.splits if_splits)
  moreover have "frame {} ha hb" using b by (rule frame_object_of)
  moreover have "frame {} hb h'" using c by (rule frame_object_of)
  ultimately show ?thesis by (blast intro: frame_trans)
qed

lemma frame_where_case1: "where_case1 key h = (c, h') \<Longrightarrow> frame {} h h'"
  by (auto simp: where_case1_def frame_refl dest: frame_alloc split: if_splits)

lemma Query_where_frame:
  assumes q: "getQuery h this = Some t" and w: "q_where t = JRef w"
  shows "frame {w} h (Query_where args this h)
         \<and> getQuery (Query_where args this h) this = Some t"
proof -
  let ?n = "length args"
  let ?key = "arg args 0"
  obtain cond0 h1 where a1: "alloc (Obj []) h = (cond0, h1)" by fastforce
  obtain op val where a2:
    "(if ?n = 2 then where_case2 h1 (arg args 1) else (arg args 1, arg args 2)) = (op, val)"
    by fastforce
  obtain cond3 h3 where a3:
    "(if ?n = 2 \<or> ?n = 3 then where_case3 ?key op val h1 else (cond0, h1)) = (cond3, h3)"
    by fastforce
  obtain cond h4 where a4:
    "(if ?n = 2 \<or> ?n = 3 \<or> ?n = 1 then where_case1 ?key h3 else (cond3, h3)) = (cond, h4)"
    by fastforce
  have r: "Query_where args this h =
      (case getQuery h4 this of Some t \<Rightarrow> extend_js (q_where t) cond h4 | None \<Rightarrow> h4)"
    using a1 a2 a3 a4 by (simp add: Query_where_def Let_def)
  have f1: "frame {} h h1" using a1 by (rule frame_alloc)
  have f3: "frame {} h1 h3"
    using a3 by (auto simp: frame_refl dest: frame_where_case3 split: if_splits)
  have f4: "frame {} h3 h4"
    using a4 by (auto simp: frame_refl dest: frame_where_case1 split: if_splits)
  have f: "frame {} h h4" using f1 f3 f4 by (blast intro: frame_trans)
  have g: "getQuery h4 this = Some t" using f q by (rule frame_getQuery) simp
  have e: "Query_where args this h = extend_js (JRef w) cond h4"
    using r g w by simp
  have "frame {w} h4 (extend_js (JRef w) cond h4)" by (rule frame_extend)
  then have "frame {w} h (extend_js (JRef w) cond h4)"
    using f by (blast intro: frame_trans frame_mono)
  then show ?thesis using e g by (simp add: getQuery_extend)
qed

lemma where_case1_fresh:
  assumes "\<not> isObject key" and "where_case1 key h = (c, h')"
  shows "c = JRef (length h) \<and> h' = h @ [Obj []]"
  using assms by (simp add: where_case1_def alloc_def)

text \<open>
  When the key is not an object (a field name, say), \<open>where\<close> leaves the condition
  tree as it was, whatever the other arguments are.
\<close>

lemma Query_where_string_key:
  assumes q: "getQuery h this = Some t" and w: "q_where t = JRef w"
      and ps: "lookup h w = Some (Obj ps)" and k: "\<not> isObject (arg args 0)"
  shows "whereTree (Query_where args this h) this = Some ps"
proof -
  let ?n = "length args"
  let ?key = "arg args 0"
  obtain cond0 h1 where a1: "alloc (Obj []) h = (cond0, h1)" by fastforce
  obtain op val where a2:
    "(if ?n = 2 then where_case2 h1 (arg args 1) else (arg args 1, arg args 2)) = (op, val)"
    by fastforce
  obtain cond3 h3 where a3:
    "(if ?n = 2 \<or> ?n = 3 then where_case3 ?key op val h1 else (cond0, h1)) = (cond3, h3)"
    by fastforce
  obtain cond h4 where a4:
    "(if ?n = 2 \<or> ?n = 3 \<or> ?n = 1 then where_case1 ?key h3 else (cond3, h3)) = (cond, h4)"
    by fastforce
  have r: "Query_where args this h =
      (case getQuery h4 this of Some t \<Rightarrow> extend_js (q_where t) cond h4 | None \<Rightarrow> h4)"
    using a1 a2 a3 a4 by (simp add: Query_where_def Let_def)
  have f1: "frame {} h h1" using a1 by (rule frame_alloc)
  have f3: "frame {} h1 h3"
    using a3 by (auto simp: frame_refl dest: frame_where_case3 split: if_splits)
  have f4: "frame {} h3 h4"
    using a4 by (auto simp: frame_refl dest: frame_where_case1 split: if_splits)
  have f: "frame {} h h4" using f1 f3 f4 by (blast intro: frame_trans)
  have g: "getQuery h4 this = Some t" using f q by (rule frame_getQuery) simp
  have wl: "w < length h" using ps by (auto simp: lookup_def split: if_splits)
  have l4: "lookup h4 w = Some (Obj ps)" using frame_empty_lookup [OF f wl] ps by simp
  have e: "allPropsOf h4 cond = []"
  proof (cases "?n = 2 \<or> ?n = 3 \<or> ?n = 1")
    case True
    with a4 k have "cond = JRef (length h3)" "h4 = h3 @ [Obj []]"
      using where_case1_fresh by auto
    then show ?thesis by (simp add: allPropsOf_def deref_def lookup_def allProps_def ownProps_def)
  next
    case False
    with a1 a3 a4 have "cond = JRef (length h)" "h4 = h @ [Obj []]"
      by (auto simp: alloc_def)
    then show ?thesis by (simp add: allPropsOf_def deref_def lookup_def allProps_def ownProps_def)
  qed
  have "Query_where args this h = h4[w := Obj ps]"
    using r g w l4 e by (simp add: extend_js_def assign_def)
  moreover have "h4[w := Obj ps] = h4"
    using l4 by (auto simp: lookup_def list_update_same_conv split: if_splits)
  ultimately show ?thesis
    using g w l4 by (simp add: whereTree_def deref_def)
qed

lemma updQuery_frame:
  assumes "getQuery h this = Some t"
  shows "frame {this} h (updQuery this f h) \<and> getQuery (updQuery this f h) this = Some (f t)"
  using assms by (simp add: updQuery_def frame_update getQuery_update)

lemma uniq_concat_frame: "uniq_concat xs fs h = (u, h') \<Longrightarrow> frame {} h h'"
  by (auto simp: uniq_concat_def alloc_def frame_append)

lemma fields_of_frame: "fields_of args h = (fs, h') \<Longrightarrow> frame {} h h'"
  by (auto simp: fields_of_def alloc_def frame_append frame_refl split: if_splits)

lemma Query_select_frame:
  assumes q: "getQuery h this = Some t"
  shows "frame {this} h (Query_select args this h)
         \<and> (\<exists>u. getQuery (Query_select args this h) this = Some (t\<lparr>q_select := u\<rparr>))"
proof -
  obtain fs h1 where a: "fields_of args h = (fs, h1)" by fastforce
  obtain u h2 where b: "uniq_concat (q_select t) fs h1 = (u, h2)" by fastforce
  have f: "frame {} h h2"
    using fields_of_frame [OF a] uniq_concat_frame [OF b] by (blast intro: frame_trans)
  have g: "getQuery h2 this = Some t" using f q by (rule frame_getQuery) simp
  have r: "Query_select args this h = updQuery this (\<lambda>t. t\<lparr>q_select := u\<rparr>) h2"
    using q a b by (simp add: Query_select_def)
  from updQuery_frame [OF g, of "\<lambda>t. t\<lparr>q_select := u\<rparr>"] f r show ?thesis
    by (auto intro: frame_trans frame_mono)
qed

lemma Query_order_frame:
  assumes q: "getQuery h this = Some t"
  shows "frame {this} h (Query_order args this h)
         \<and> (\<exists>u. getQuery (Query_order args this h) this = Some (t\<lparr>q_order := u\<rparr>))"
proof -
  obtain fs h1 where a: "fields_of args h = (fs, h1)" by fastforce
  obtain u h2 where b: "uniq_concat (q_order t) fs h1 = (u, h2)" by fastforce
  have f: "frame {} h h2"
    using fields_of_frame [OF a] uniq_concat_frame [OF b] by (blast intro: frame_trans)
  have g: "getQuery h2 this = Some t" using f q by (rule frame_getQuery) simp
  have r: "Query_order args this h = updQuery this (\<lambda>t. t\<lparr>q_order := u\<rparr>) h2"
    using q a b by (simp add: Query_order_def)
  from updQuery_frame [OF g, of "\<lambda>t. t\<lparr>q_order := u\<rparr>"] f r show ?thesis
    by (auto intro: frame_trans frame_mono)
qed

lemma Query_orWhere_frame:
  assumes q: "getQuery h this = Some t" and w: "q_where t = JRef w"
  shows "frame {w} h (Query_orWhere args this h)
         \<and> getQuery (Query_orWhere args this h) this = Some t"
proof -
  let ?h2 = "h @ [Arr args, Obj [(''$or'', JRef (length h))]]"
  have r: "Query_orWhere args this h = Query_where [JRef (Suc (length h))] this ?h2"
    by (simp add: Query_orWhere_def alloc_def)
  have g: "getQuery ?h2 this = Some t" using q by (rule getQuery_append)
  from Query_where_frame [OF g w, of "[JRef (Suc (length h))]"] r
  show ?thesis
    using frame_append [of "{w}" h "[Arr args, Obj [(''$or'', JRef (length h))]]"]
    by (auto intro: frame_trans)
qed

lemma apply_call_frame:
  assumes q: "getQuery h this = Some t" and w: "q_where t = JRef w"
  shows "frame {this, w} h (apply_call conv this c h)
         \<and> (\<exists>t'. getQuery (apply_call conv this c h) this = Some t' \<and> q_where t' = JRef w
               \<and> q_driver t' = q_driver t)"
proof (cases c)
  case (Where args)
  with Query_where_frame [OF q w, of args] w show ?thesis
    by (auto intro: frame_mono)
next
  case (WhereIn key val)
  with Query_where_frame [OF q w, of "[key, JStr ''$in'', val]"] w show ?thesis
    by (auto simp: Query_whereIn_def intro: frame_mono)
next
  case (OrWhere args)
  with Query_orWhere_frame [OF q w, of args] w show ?thesis
    by (auto intro: frame_mono)
next
  case (Select args)
  with Query_select_frame [OF q, of args] w show ?thesis
    by (auto intro: frame_mono)
next
  case (Order args)
  with Query_order_frame [OF q, of args] w show ?thesis
    by (auto intro: frame_mono)
next
  case (From v)
  with updQuery_frame [OF q, of "\<lambda>t. t\<lparr>q_from := v\<rparr>"] w show ?thesis
    by (auto simp: Query_from_def intro: frame_mono)
next
  case (Take n)
  with updQuery_frame [OF q, of "\<lambda>t. t\<lparr>q_limit := Number_of conv n\<rparr>"] w show ?thesis
    by (auto simp: Query_take_def intro: frame_mono)
next
  case (Skip n)
  with updQuery_frame [OF q, of "\<lambda>t. t\<lparr>q_offset := Number_of conv n\<rparr>"] w show ?thesis
    by (auto simp: Query_skip_def intro: frame_mono)
next
  case Distinct
  with updQuery_frame [OF q, of "\<lambda>t. t\<lparr>q_distinct := JBool True\<rparr>"] w show ?thesis
    by (auto simp: Query_distinct_def intro: frame_mono)
qed

lemma run_frame:
  "getQuery h this = Some t \<Longrightarrow> q_where t = JRef w \<Longrightarrow>
     frame {this, w} h (run conv this cs h)
     \<and> (\<exists>t'. getQuery (run conv this cs h) this = Some t' \<and> q_driver t' = q_driver t)"
proof (induction cs arbitrary: h t)
  case Nil
  then show ?case by (simp add: run_def frame_refl)
next
  case (Cons c cs)
  from apply_call_frame [OF Cons.prems, of conv c] obtain t' where
    f: "frame {this, w} h (apply_call conv this c h)"
    and g: "getQuery (apply_call conv this c h) this = Some t'" "q_where t' = JRef w"
    and d: "q_driver t' = q_driver t"
    by blast
  from Cons.IH [OF g] f d show ?case
    by (auto simp: run_def intro: frame_trans)
qed

text \<open>
  C9. Once \<open>assemble()\<close> has returned a descriptor, any sequence of constraint calls on
  the same builder (\<open>where\<close>, \<open>whereIn\<close>, \<open>orWhere\<close>, \<open>select\<close>, \<open>order\<close>, \<open>from\<close>,
  \<open>take\<close>, \<open>skip\<close>, \<open>distinct\<close>, with any arguments) leaves the descriptor as it was:
  its properties and the arrays and objects they refer to. The calls write to two cells
  only, the builder and its \<open>_where\<close> object; every other cell of the store is unchanged.
\<close>

theorem assemble_snapshot_unchanged:
  assumes q: "getQuery h0 this = Some t" and w: "q_where t = JRef w" and wl: "w < length h0"
      and a: "Query_assemble this h0 = (d, h1)"
  shows "snapshot (run conv this cs h1) d = snapshot h1 d
         \<and> frame {this, w} h1 (run conv this cs h1)"
proof -
  let ?n = "length h0"
  let ?h2 = "run conv this cs h1"
  from Query_assemble_result [OF a] have d: "d = JRef ?n" and f01: "frame {} h0 h1"
    and dc: "descriptor_cell ?n h1" by auto
  have tl: "this < ?n" using q by (auto simp: getQuery_def lookup_def split: if_splits)
  have g1: "getQuery h1 this = Some t" using f01 q by (rule frame_getQuery) simp
  have f12: "frame {this, w} h1 ?h2" using run_frame [OF g1 w] by simp
  from dc obtain ps where ps: "lookup h1 ?n = Some (Obj ps)"
    and fresh: "\<forall>(k, v) \<in> set ps. \<forall>c. v = JRef c \<longrightarrow> ?n < c \<and> c < length h1"
    by (auto simp: descriptor_cell_def)
  have keep: "lookup ?h2 c = lookup h1 c" if "?n \<le> c" "c < length h1" for c
    using frame_lookup [OF f12 that(2)] that(1) tl wl by auto
  have nl: "?n < length h1" using ps by (auto simp: lookup_def split: if_splits)
  have ps2: "lookup ?h2 ?n = Some (Obj ps)" using keep [of ?n] nl ps by simp
  have "deref ?h2 v = deref h1 v" if "(k, v) \<in> set ps" for k v
  proof (cases v)
    case (JRef c)
    with fresh that have "?n < c" "c < length h1" by auto
    with keep [of c] JRef show ?thesis by (simp add: deref_def)
  qed (simp_all add: deref_def)
  then have "map (\<lambda>(k, v). (k, v, deref ?h2 v)) ps = map (\<lambda>(k, v). (k, v, deref h1 v)) ps"
    by auto
  then have "snapshot ?h2 d = snapshot h1 d"
    using d ps ps2 by (simp add: snapshot_def propsOf_def deref_def)
  then show ?thesis using f12 by simp
qed

theorem assemble_snapshot_unchanged_witness:
  "getQuery [Obj [(''a'', JNum 1)], Obj [], Arr [JStr ''id''], Arr [],
      QueryObj \<lparr> q_where = JRef 0, q_rels = JRef 1, q_select = JRef 2, q_order = JRef 3,
        q_distinct = JBool False, q_offset = JUndefined, q_limit = JUndefined,
        q_from = JStr ''users'', q_driver = JStr ''driver'', q_model = None \<rparr>] 4
     = Some \<lparr> q_where = JRef 0, q_rels = JRef 1, q_select = JRef 2, q_order = JRef 3,
        q_distinct = JBool False, q_offset = JUndefined, q_limit = JUndefined,
        q_from = JStr ''users'', q_driver = JStr ''driver'', q_model = None \<rparr>
   \<and> (0::nat) < 5
   \<and> (let h0 = [Obj [(''a'', JNum 1)], Obj [], Arr [JStr ''id''], Arr [],
            QueryObj \<lparr> q_where = JRef 0, q_rels = JRef 1, q_select = JRef 2,
              q_order = JRef 3, q_distinct = JBool False, q_offset = JUndefined,
              q_limit = JUndefined, q_from = JStr ''users'', q_driver = JStr ''driver'',
              q_model = None \<rparr>];
            d = fst (Query_assemble 4 h0);
            h1 = snd (Query_assemble 4 h0);
            cs = [Where [JRef 5], Select [JStr ''name''], Take (JNum 3), Distinct,
                  OrWhere [JRef 0], From (JStr ''people'')]
        in snapshot h1 d
             = Some [(''select'', JRef 7, Some (Arr [JStr ''id''])),
                     (''from'', JStr ''users'', None),
                     (''where'', JRef 8, Some (Obj [(''a'', JNum 1)]))]
           \<and> snapshot (run id 4 cs h1) d = snapshot h1 d)"
proof -
  let ?t = "\<lparr> q_where = JRef 0, q_rels = JRef 1, q_select = JRef 2, q_order = JRef 3,
        q_distinct = JBool False, q_offset = JUndefined, q_limit = JUndefined,
        q_from = JStr ''users'', q_driver = JStr ''driver'', q_model = None \<rparr>"
  let ?h0 = "[Obj [(''a'', JNum 1)], Obj [], Arr [JStr ''id''], Arr [], QueryObj ?t]"
  have a: "getQuery ?h0 4 = Some ?t"
    by (simp add: eval_store)
  have b: "q_where ?t = JRef 0" by simp
  have c: "0 < length ?h0" by simp
  have d: "Query_assemble 4 ?h0 = (fst (Query_assemble 4 ?h0), snd (Query_assemble 4 ?h0))"
    by simp
  have e: "Query_assemble 4 ?h0 =
     (JRef 5, ?h0 @ [Obj [(''select'', JRef 7), (''from'', JStr ''users''), (''where'', JRef 8)],
        Arr [JStr ''id''], Arr [JStr ''id''], Obj [(''a'', JNum 1)]])"
    by (simp add: eval_store eval_underscore eval_query Let_def
        cong: prod.case_cong_weak let_weak_cong)
  have f: "snapshot (snd (Query_assemble 4 ?h0)) (fst (Query_assemble 4 ?h0))
     = Some [(''select'', JRef 7, Some (Arr [JStr ''id''])),
             (''from'', JStr ''users'', None),
             (''where'', JRef 8, Some (Obj [(''a'', JNum 1)]))]"
    unfolding e by (simp add: snapshot_def eval_store)
  show ?thesis
    using assemble_snapshot_unchanged [OF a b c d, of id
        "[Where [JRef 5], Select [JStr ''name''], Take (JNum 3), Distinct,
          OrWhere [JRef 0], From (JStr ''people'')]"] a f
    by (simp add: Let_def)
qed

section \<open>newQuery\<close>

text \<open>
  C5. For a model instance \<open>m\<close>, \<open>m.newQuery()\<close> returns a new Query whose \<open>driver\<close> is
  \<open>m\<close> itself, whatever the class-level driver of \<open>m\<close> is (the constructor takes one
  parameter; the class-level driver, passed second, is dropped). No constraint call
  changes \<open>driver\<close>. The Query has no \<open>model\<close> until \<open>setModel\<close> gives it one.
\<close>

theorem newQuery_driver_is_model:
  assumes "getModel h m = Some x"
  shows "case Model_newQuery m h of
           (q, h') \<Rightarrow>
             (\<exists>a t. q = JRef a \<and> getQuery h' a = Some t
                \<and> q_driver t = JRef m
                \<and> (m_driver x \<noteq> JRef m \<longrightarrow> q_driver t \<noteq> m_driver x)
                \<and> (\<forall>conv cs. map_option q_driver (getQuery (run conv a cs h') a)
                       = Some (JRef m))
                \<and> q_model t = None
                \<and> (\<forall>v. getQuery (Query_setModel v a h') a = Some (t\<lparr>q_model := Some v\<rparr>)))"
proof -
  let ?a = "length h + 4"
  let ?t = "\<lparr> q_where = JRef (length h), q_rels = JRef (length h + 1),
          q_select = JRef (length h + 2), q_order = JRef (length h + 3),
          q_distinct = JBool False, q_offset = JUndefined, q_limit = JUndefined,
          q_from = JUndefined, q_driver = JRef m, q_model = None \<rparr>"
  let ?h = "h @ [Obj [], Obj [], Arr [], Arr [], QueryObj ?t]"
  have r: "Model_newQuery m h = (JRef ?a, ?h)"
    by (simp add: Model_newQuery_def Query_new_unfold arg_def)
  have g: "getQuery ?h ?a = Some ?t"
    by (simp add: getQuery_def lookup_def nth_append)
  have w: "q_where ?t = JRef (length h)" by simp
  have d: "map_option q_driver (getQuery (run conv ?a cs ?h) ?a) = Some (JRef m)" for conv cs
    using run_frame [OF g w, of conv cs] by auto
  have s: "getQuery (Query_setModel v ?a ?h) ?a = Some (?t\<lparr>q_model := Some v\<rparr>)" for v
    using updQuery_frame [OF g, of "\<lambda>t. t\<lparr>q_model := Some v\<rparr>"]
    by (simp add: Query_setModel_def)
  show ?thesis
    unfolding r using g d s by simp
qed

theorem newQuery_driver_is_model_witness:
  "getModel [ModelObj \<lparr> m_driver = JStr ''driver'', m_pk = ''id'', m_data = [],
       m_related = [], m_proto = [] \<rparr>] 0
     = Some \<lparr> m_driver = JStr ''driver'', m_pk = ''id'', m_data = [],
         m_related = [], m_proto = [] \<rparr>
   \<and> (case Model_newQuery 0 [ModelObj \<lparr> m_driver = JStr ''driver'', m_pk = ''id'',
         m_data = [], m_related = [], m_proto = [] \<rparr>] of
        (q, h') \<Rightarrow>
          (\<exists>a t. q = JRef a \<and> getQuery h' a = Some t \<and> q_driver t = JRef 0
             \<and> q_driver t \<noteq> JStr ''driver'' \<and> q_model t = None))"
proof -
  let ?m = "\<lparr> m_driver = JStr ''driver'', m_pk = ''id'', m_data = [],
       m_related = [], m_proto = [] \<rparr>"
  have a: "getModel [ModelObj ?m] 0 = Some ?m"
    by (simp add: getModel_def lookup_def)
  show ?thesis
    using newQuery_driver_is_model [OF a] a
    by (auto split: prod.splits)
qed

section \<open>fetch and fetchAll\<close>

lemma Query_loadRelated_rejects:
  "getQuery h this = Some t \<Longrightarrow>
     fst (Query_loadRelated e models this h) = Rejected (TypeError ''expecting a function'')"
  by (simp add: Query_loadRelated_def alloc_def Promise_map_def isFunction_def)

text \<open>
  C4. On a new builder whose driver's \<open>fetch\<close> resolves to \<open>null\<close>, \<open>fetch()\<close> is
  rejected with \<open>ModelNotFound\<close>. When the driver's \<open>fetchAll\<close> resolves to an empty array,
  \<open>fetchAll()\<close> is rejected as well, with the \<open>TypeError\<close> of \<open>loadRelated\<close>; it does not
  resolve to an empty sequence.
\<close>

theorem fetchAll_rejects_on_empty_result:
  "fst (Query_fetch (empty_driver sd ni bm) 4 (snd (Query_new [JStr ''driver''] [])))
     = Rejected ModelNotFound
   \<and> fst (Query_fetchAll (empty_driver sd ni bm) 4 (snd (Query_new [JStr ''driver''] [])))
     = Rejected (TypeError ''expecting a function'')"
  by (simp add: Query_new_eval Query_fetch_def Query_fetchAll_def Query_loadRelated_def
      Promise_map_def map_values_def keys_def
      eval_example eval_store eval_underscore eval_query Let_def
      cong: prod.case_cong_weak let_weak_cong)

section \<open>BelongsToMany\<close>

text \<open>
  C2. The relation \<open>user_roles\<close> (parent user 1, local key \<open>user_id\<close>, other key
  \<open>role_id\<close>): \<open>detach()\<close> and \<open>detach([4, 5])\<close> each make one \<open>destroy\<close> call, and
  the descriptor passed is \<open>{}\<close>. It has no \<open>where\<close>: neither \<open>user_id\<close> nor \<open>role_id\<close> is
  constrained.
\<close>

theorem detach_descriptor_has_no_where:
  "(case detach [] user_roles user_roles_store of
      (c, h) \<Rightarrow> c = Some (DriverCall (JRef 2) ''destroy'' [JRef 21])
                \<and> propsOf h (JRef 21) = Some [])
   \<and> (case detach [JRef 9] user_roles user_roles_store of
      (c, h) \<Rightarrow> c = Some (DriverCall (JRef 2) ''destroy'' [JRef 20])
                \<and> propsOf h (JRef 20) = Some [])"
  by (simp add: eval_example eval_model eval_store eval_underscore eval_query Let_def
      cong: prod.case_cong_weak let_weak_cong)

text \<open>
  C6. \<open>_applyEagerConstraints\<close> for the two users of the example store leaves the
  condition tree of the relation's query empty: the related key is not constrained.
\<close>

theorem eager_constraints_leave_tree_empty:
  "whereTree (applyEagerConstraints [JRef 0, JRef 8] user_roles user_roles_store)
     (r_query user_roles) = Some []"
  by (simp add: eval_example eval_model eval_store eval_underscore eval_query Let_def
      cong: prod.case_cong_weak let_weak_cong)

section \<open>The many-to-many mixin\<close>

text \<open>
  C7. \<open>buildDictionary\<close> on three entities whose pivot attribute \<open>k\<close> is 1, 1 and 2
  groups them as \<open>{1: [e1, e2], 2: [e3]}\<close> and leaves the store as it was: every entity
  still has its pivot record.
\<close>

theorem buildDictionary_keeps_pivot:
  "buildDictionary [JRef 0, JRef 2, JRef 4] (JStr ''k'') pivot_store
     = (Inr [(''1'', [JRef 0, JRef 2]), (''2'', [JRef 4])], pivot_store)
   \<and> Model_related (JRef 0) ''pivot'' pivot_store = JRef 1
   \<and> Model_related (JRef 2) ''pivot'' pivot_store = JRef 3
   \<and> Model_related (JRef 4) ''pivot'' pivot_store = JRef 5"
  by (simp add: buildDictionary_def cleanPivotAttributes_def groupBy_def show_nat.simps
      eval_example eval_model eval_store eval_underscore Let_def
      cong: prod.case_cong_weak let_weak_cong)

end
